theory Spec2Isabelle
  imports Main "HOL-Library.Sublist" "HOL-Library.Monad_Syntax" "HOL-Library.Finite_Map"
begin

section \<open>Go runtime and library functions used by the blueprint package\<close>

text \<open>
  Go strings are byte sequences; they are modelled as \<open>string\<close> (a list of 8-bit
  characters).  Indexing a slice out of range panics in Go: \<open>go_index\<close> returns
  \<open>None\<close> for the panic, and every function below that indexes a slice returns an
  option, \<open>None\<close> standing for a run-time panic.
\<close>

definition go_index :: "'a list \<Rightarrow> nat \<Rightarrow> 'a option" where
  "go_index xs i = (if i < length xs then Some (xs ! i) else None)"

text \<open>
  \<open>strings.ReplaceAll(s, old, new)\<close>: the non-overlapping occurrences of \<open>old\<close> in
  \<open>s\<close>, found from left to right, are replaced by \<open>new\<close>.  The package calls it with
  \<open>old = "-"\<close> and with \<open>old\<close> a full match of the template expression, never with the
  empty string; for an empty \<open>old\<close> (where Go inserts \<open>new\<close> around every rune) the
  model leaves \<open>s\<close> as it is.
\<close>

fun strings_ReplaceAll :: "string \<Rightarrow> string \<Rightarrow> string \<Rightarrow> string" where
  "strings_ReplaceAll [] old new = []"
| "strings_ReplaceAll (c # cs) old new =
     (if old \<noteq> [] \<and> prefix old (c # cs)
      then new @ strings_ReplaceAll (drop (length old - 1) cs) old new
      else c # strings_ReplaceAll cs old new)"

text \<open>\<open>strings.Join(elems, sep)\<close>.\<close>

fun strings_Join :: "string list \<Rightarrow> string \<Rightarrow> string" where
  "strings_Join [] sep = []"
| "strings_Join [x] sep = x"
| "strings_Join (x # y # ys) sep = x @ sep @ strings_Join (y # ys) sep"

text \<open>
  \<open>strings.TrimSpace\<close> removes the leading and the trailing runes for which
  \<open>unicode.IsSpace\<close> holds.  On the bytes of the string these are the UTF-8 encodings
  below: the six ASCII characters, U+0085, U+00A0, U+1680, U+2000 to U+200A, U+2028,
  U+2029, U+202F, U+205F and U+3000.  A byte that does not start one of these encodings
  (also an invalid one, which Go decodes as U+FFFD) stops the trimming.
\<close>

definition unicode_IsSpace_encodings :: "string list" where
  "unicode_IsSpace_encodings =
     [[CHR 0x09], [CHR 0x0A], [CHR 0x0B], [CHR 0x0C], [CHR 0x0D], [CHR 0x20],
      [CHR 0xC2, CHR 0x85], [CHR 0xC2, CHR 0xA0],
      [CHR 0xE1, CHR 0x9A, CHR 0x80],
      [CHR 0xE2, CHR 0x80, CHR 0x80], [CHR 0xE2, CHR 0x80, CHR 0x81],
      [CHR 0xE2, CHR 0x80, CHR 0x82], [CHR 0xE2, CHR 0x80, CHR 0x83],
      [CHR 0xE2, CHR 0x80, CHR 0x84], [CHR 0xE2, CHR 0x80, CHR 0x85],
      [CHR 0xE2, CHR 0x80, CHR 0x86], [CHR 0xE2, CHR 0x80, CHR 0x87],
      [CHR 0xE2, CHR 0x80, CHR 0x88], [CHR 0xE2, CHR 0x80, CHR 0x89],
      [CHR 0xE2, CHR 0x80, CHR 0x8A],
      [CHR 0xE2, CHR 0x80, CHR 0xA8], [CHR 0xE2, CHR 0x80, CHR 0xA9],
      [CHR 0xE2, CHR 0x80, CHR 0xAF], [CHR 0xE2, CHR 0x81, CHR 0x9F],
      [CHR 0xE3, CHR 0x80, CHR 0x80]]"

fun trim_left_runes :: "string list \<Rightarrow> string \<Rightarrow> string" where
  "trim_left_runes es [] = []"
| "trim_left_runes es (c # cs) =
     (case filter (\<lambda>e. e \<noteq> [] \<and> prefix e (c # cs)) es of
        [] \<Rightarrow> c # cs
      | e # _ \<Rightarrow> trim_left_runes es (drop (length e - 1) cs))"

definition strings_TrimSpace :: "string \<Rightarrow> string" where
  "strings_TrimSpace s =
     rev (trim_left_runes (map rev unicode_IsSpace_encodings)
            (rev (trim_left_runes unicode_IsSpace_encodings s)))"

section \<open>The two regular expressions\<close>

text \<open>
  \<open>optionalRegex = ^\[([^.\]]+)(\.\.\.)?]$\<close>.  After the opening bracket the name group
  takes the longest run of characters other than \<open>.\<close> and \<open>]\<close> (a shorter run would be
  followed by a character that neither \<open>\.\<close> nor \<open>]\<close> accepts), and what is left must be
  \<open>...]\<close> or \<open>]\<close>, up to the end of the text.  \<open>FindStringSubmatch\<close> returns nil
  (\<open>None\<close>) when the word does not match, and otherwise the slice of the whole match
  and the two groups, an unmatched group being the empty string.
\<close>

definition optionalRegex_FindStringSubmatch :: "string \<Rightarrow> string list option" where
  "optionalRegex_FindStringSubmatch arg =
     (case arg of
        [] \<Rightarrow> None
      | c # rest \<Rightarrow>
          if c \<noteq> CHR ''['' then None
          else
            let nm = takeWhile (\<lambda>x. x \<noteq> CHR ''.'' \<and> x \<noteq> CHR '']'') rest;
                after = dropWhile (\<lambda>x. x \<noteq> CHR ''.'' \<and> x \<noteq> CHR '']'') rest
            in if nm = [] then None
               else if after = ''...]'' then Some [arg, nm, ''...'']
               else if after = '']'' then Some [arg, nm, '''']
               else None)"

text \<open>
  \<open>templateRegex = \{\{([^#}]+)(?:#([^}]+))?\}\}\<close>, tried at the beginning of a text.
  The name group takes the longest run of characters other than \<open>#\<close> and \<open>}\<close>; after a
  \<open>#\<close> the description group takes the longest run of characters other than \<open>}\<close>; in
  both places a shorter run cannot be continued, so there is nothing to backtrack to.
  The result is the submatch slice (whole match, name, description or the empty string)
  and the text after the match.
\<close>

definition templateRegex_match_prefix :: "string \<Rightarrow> (string list \<times> string) option" where
  "templateRegex_match_prefix s =
     (case s of
        c1 # c2 # r \<Rightarrow>
          if c1 = CHR ''{'' \<and> c2 = CHR ''{'' then
            let nm = takeWhile (\<lambda>x. x \<noteq> CHR ''#'' \<and> x \<noteq> CHR ''}'') r;
                a = dropWhile (\<lambda>x. x \<noteq> CHR ''#'' \<and> x \<noteq> CHR ''}'') r
            in if nm = [] then None
               else (case a of
                       [] \<Rightarrow> None
                     | x # d \<Rightarrow>
                         if x = CHR ''#'' then
                           let desc = takeWhile (\<lambda>y. y \<noteq> CHR ''}'') d;
                               b = dropWhile (\<lambda>y. y \<noteq> CHR ''}'') d
                           in if desc \<noteq> [] \<and> prefix ''}}'' b
                              then Some ([''{{'' @ nm @ ''#'' @ desc @ ''}}'', nm, desc], drop 2 b)
                              else None
                         else if prefix ''}}'' a
                              then Some ([''{{'' @ nm @ ''}}'', nm, ''''], drop 2 a)
                              else None)
          else None
      | _ \<Rightarrow> None)"

text \<open>
  The matching loop of the regexp package, shared by \<open>FindAllStringSubmatch\<close> and
  \<open>ReplaceAllString\<close>: the text is scanned from left to right, a match is taken where
  the expression matches and the scan goes on after it, otherwise one character is
  passed over.
\<close>

datatype piece = Lit char | Match "string list"

text \<open>
  What a match looks like: the text begins with \<open>{{name}}\<close> or \<open>{{name#desc}}\<close>, the
  name is not empty and has no \<open>#\<close> and no \<open>}\<close>, the description has no \<open>}\<close>, and the
  submatch slice has the three entries whole match, name and description.
\<close>

definition template_span :: "string \<Rightarrow> string \<Rightarrow> string" where
  "template_span nm desc = ''{{'' @ nm @ (if desc = [] then [] else CHR ''#'' # desc) @ ''}}''"

lemma templateRegex_match_prefix_braces:
  "templateRegex_match_prefix (CHR ''{'' # CHR ''{'' # r) =
     (let nm = takeWhile (\<lambda>x. x \<noteq> CHR ''#'' \<and> x \<noteq> CHR ''}'') r;
          a = dropWhile (\<lambda>x. x \<noteq> CHR ''#'' \<and> x \<noteq> CHR ''}'') r
      in if nm = [] then None
         else (case a of
                 [] \<Rightarrow> None
               | x # d \<Rightarrow>
                   if x = CHR ''#'' then
                     let desc = takeWhile (\<lambda>y. y \<noteq> CHR ''}'') d;
                         b = dropWhile (\<lambda>y. y \<noteq> CHR ''}'') d
                     in if desc \<noteq> [] \<and> prefix ''}}'' b
                        then Some ([''{{'' @ nm @ ''#'' @ desc @ ''}}'', nm, desc], drop 2 b)
                        else None
                   else if prefix ''}}'' a
                        then Some ([''{{'' @ nm @ ''}}'', nm, ''''], drop 2 a)
                        else None))"
  unfolding templateRegex_match_prefix_def by simp

lemma templateRegex_match_prefix_start:
  assumes "templateRegex_match_prefix s = Some (m, rest)"
  shows "\<exists>r. s = CHR ''{'' # CHR ''{'' # r"
proof (cases s)
  case Nil with assms show ?thesis by (simp add: templateRegex_match_prefix_def)
next
  case (Cons c1 s1)
  show ?thesis
  proof (cases s1)
    case Nil with Cons assms show ?thesis by (simp add: templateRegex_match_prefix_def)
  next
    case (Cons c2 r)
    with \<open>s = c1 # s1\<close> assms show ?thesis
      by (cases "c1 = CHR ''{'' \<and> c2 = CHR ''{''") (simp_all add: templateRegex_match_prefix_def)
  qed
qed


lemma takeWhile_all: "\<forall>x\<in>set (takeWhile P xs). P x"
  by (auto dest: set_takeWhileD)

lemma prefix2_drop: "prefix [c1, c2] b \<Longrightarrow> rest = drop 2 b \<Longrightarrow> b = [c1, c2] @ rest"
  by (auto simp: prefix_def)

lemma if_Some_eqD: "(if c then Some x else None) = Some y \<Longrightarrow> c \<and> x = y"
  by (simp split: if_splits)

lemma if_None_eqD: "(if c then None else X) = Some y \<Longrightarrow> \<not> c \<and> X = Some y"
  by (simp split: if_splits)

lemma list_case_SomeD:
  "(case a of [] \<Rightarrow> None | x # d \<Rightarrow> f x d) = Some y \<Longrightarrow> \<exists>x d. a = x # d \<and> f x d = Some y"
  by (cases a) simp_all

lemma templateRegex_match_prefix_shape:
  assumes "templateRegex_match_prefix s = Some (m, rest)"
  shows "\<exists>nm desc. m = [template_span nm desc, nm, desc]
           \<and> s = template_span nm desc @ rest
           \<and> nm \<noteq> [] \<and> (\<forall>x\<in>set nm. x \<noteq> CHR ''#'' \<and> x \<noteq> CHR ''}'')
           \<and> (\<forall>y\<in>set desc. y \<noteq> CHR ''}'')"
proof -
  let ?P = "\<lambda>x. x \<noteq> CHR ''#'' \<and> x \<noteq> CHR ''}''"
  let ?Q = "\<lambda>y. y \<noteq> CHR ''}''"
  from templateRegex_match_prefix_start [OF assms] obtain r where s: "s = CHR ''{'' # CHR ''{'' # r" by (elim exE)
  define nm where "nm = takeWhile ?P r"
  define a where "a = dropWhile ?P r"
  have r: "r = nm @ a" unfolding nm_def a_def by (rule takeWhile_dropWhile_id [symmetric])
  have nmP: "\<forall>x\<in>set nm. ?P x" unfolding nm_def by (rule takeWhile_all)
  have step1: "(if nm = [] then None
         else (case a of
                 [] \<Rightarrow> None
               | x # d \<Rightarrow>
                   if x = CHR ''#'' then
                     if takeWhile ?Q d \<noteq> [] \<and> prefix ''}}'' (dropWhile ?Q d)
                        then Some ([''{{'' @ nm @ ''#'' @ takeWhile ?Q d @ ''}}'', nm, takeWhile ?Q d],
                                   drop 2 (dropWhile ?Q d))
                        else None
                   else if prefix ''}}'' a
                        then Some ([''{{'' @ nm @ ''}}'', nm, []], drop 2 a)
                        else None)) = Some (m, rest)"
    using assms unfolding s templateRegex_match_prefix_braces nm_def a_def Let_def .
  from if_None_eqD [OF step1] have nm: "nm \<noteq> []" by (rule conjunct1)
  from if_None_eqD [OF step1, THEN conjunct2, THEN list_case_SomeD]
  obtain x d where a: "a = x # d" and step2:
     "(if x = CHR ''#'' then
         if takeWhile ?Q d \<noteq> [] \<and> prefix ''}}'' (dropWhile ?Q d)
            then Some ([''{{'' @ nm @ ''#'' @ takeWhile ?Q d @ ''}}'', nm, takeWhile ?Q d],
                       drop 2 (dropWhile ?Q d))
            else None
       else if prefix ''}}'' a
            then Some ([''{{'' @ nm @ ''}}'', nm, []], drop 2 a)
            else None) = Some (m, rest)"
    by (elim exE conjE)
  show ?thesis
  proof (cases "x = CHR ''#''")
    case True
    define desc where "desc = takeWhile ?Q d"
    define b where "b = dropWhile ?Q d"
    have d: "d = desc @ b" unfolding desc_def b_def by (rule takeWhile_dropWhile_id [symmetric])
    have descQ: "\<forall>y\<in>set desc. ?Q y" unfolding desc_def by (rule takeWhile_all)
    from step2 have "(if desc \<noteq> [] \<and> prefix ''}}'' b
            then Some ([''{{'' @ nm @ ''#'' @ desc @ ''}}'', nm, desc], drop 2 b)
            else None) = Some (m, rest)"
      unfolding desc_def b_def if_P [OF True] .
    from if_Some_eqD [OF this]
    have desc: "desc \<noteq> []" and pre: "prefix ''}}'' b"
      and m: "m = [''{{'' @ nm @ ''#'' @ desc @ ''}}'', nm, desc]" and rest: "rest = drop 2 b"
      by simp_all
    from pre rest have b: "b = ''}}'' @ rest" by (rule prefix2_drop)
    have ts: "template_span nm desc = ''{{'' @ nm @ ''#'' @ desc @ ''}}''"
      using desc unfolding template_span_def by simp
    have "s = (''{{'' @ nm @ ''#'' @ desc @ ''}}'') @ rest"
      unfolding s r a d using True b by simp
    then have "s = template_span nm desc @ rest" unfolding ts .
    moreover have "m = [template_span nm desc, nm, desc]" unfolding ts m ..
    ultimately show ?thesis using nm nmP descQ
      by (intro exI [of _ nm] exI [of _ desc] conjI)
  next
    case False
    from step2 have "(if prefix ''}}'' a
            then Some ([''{{'' @ nm @ ''}}'', nm, []], drop 2 a)
            else None) = Some (m, rest)"
      unfolding if_not_P [OF False] .
    from if_Some_eqD [OF this]
    have pre: "prefix ''}}'' a"
      and m: "m = [''{{'' @ nm @ ''}}'', nm, []]" and rest: "rest = drop 2 a"
      by simp_all
    from pre rest have a': "a = ''}}'' @ rest" by (rule prefix2_drop)
    have ts: "template_span nm [] = ''{{'' @ nm @ ''}}''"
      unfolding template_span_def by simp
    have "s = (''{{'' @ nm @ ''}}'') @ rest"
      unfolding s r using a' by simp
    then have "s = template_span nm [] @ rest" unfolding ts .
    moreover have "m = [template_span nm [], nm, []]" unfolding ts m ..
    moreover have "\<forall>y\<in>set ([]::string). ?Q y" by simp
    ultimately show ?thesis using nm nmP
      by (intro exI [of _ nm] exI [of _ "[]"] conjI)
  qed
qed

lemma templateRegex_match_prefix_shorter:
  assumes "templateRegex_match_prefix s = Some (m, rest)"
  shows "length rest < length s"
proof -
  from templateRegex_match_prefix_shape [OF assms]
  obtain nm desc where s: "s = template_span nm desc @ rest" by (elim exE conjE)
  have "length s = length (template_span nm desc) + length rest"
    unfolding s by (rule length_append)
  moreover have "0 < length (template_span nm desc)" unfolding template_span_def by simp
  ultimately show ?thesis by simp
qed


function templateRegex_allMatches :: "string \<Rightarrow> piece list" where
  "templateRegex_allMatches s =
     (if s = [] then []
      else case templateRegex_match_prefix s of
             Some (m, rest) \<Rightarrow> Match m # templateRegex_allMatches rest
           | None \<Rightarrow> Lit (hd s) # templateRegex_allMatches (tl s))"
  by pat_completeness auto
termination
proof (relation "measure length")
  show "wf (measure length)" by simp
next
  fix s :: string assume "s \<noteq> []"
  then show "(tl s, s) \<in> measure length" by (cases s) simp_all
next
  fix s :: string and x2 x y
  assume "templateRegex_match_prefix s = Some x2" "(x, y) = x2"
  then have "templateRegex_match_prefix s = Some (x, y)" by simp
  from templateRegex_match_prefix_shorter [OF this]
  show "(y, s) \<in> measure length" by simp
qed

declare templateRegex_allMatches.simps [simp del]

lemma templateRegex_allMatches_Nil: "templateRegex_allMatches [] = []"
  by (subst templateRegex_allMatches.simps) simp

lemma templateRegex_allMatches_match:
  assumes "templateRegex_match_prefix s = Some (m, rest)"
  shows "templateRegex_allMatches s = Match m # templateRegex_allMatches rest"
proof -
  from templateRegex_match_prefix_shorter [OF assms] have "s \<noteq> []" by auto
  with assms show ?thesis by (subst templateRegex_allMatches.simps) simp
qed

lemma templateRegex_allMatches_skip:
  assumes "templateRegex_match_prefix (c # cs) = None"
  shows "templateRegex_allMatches (c # cs) = Lit c # templateRegex_allMatches cs"
  using assms by (subst templateRegex_allMatches.simps) simp

definition templateRegex_FindAllStringSubmatch :: "string \<Rightarrow> string list list" where
  "templateRegex_FindAllStringSubmatch s =
     concat (map (\<lambda>p. case p of Lit c \<Rightarrow> [] | Match m \<Rightarrow> [m]) (templateRegex_allMatches s))"

text \<open>
  \<open>templateRegex.ReplaceAllString(s, "{{$1}}")\<close>: every match is replaced by the
  expansion of the replacement text, in which \<open>$1\<close> is the first group of the match
  (a group the match does not have expands to the empty string), and the text between
  the matches is copied.
\<close>

definition expand_display :: "string list \<Rightarrow> string" where
  "expand_display m = ''{{'' @ (case go_index m 1 of Some g \<Rightarrow> g | None \<Rightarrow> []) @ ''}}''"

definition templateRegex_ReplaceAllString :: "string \<Rightarrow> string" where
  "templateRegex_ReplaceAllString s =
     concat (map (\<lambda>p. case p of Lit c \<Rightarrow> [c] | Match m \<Rightarrow> expand_display m)
               (templateRegex_allMatches s))"

section \<open>The data model\<close>

text \<open>
  \<open>jsonschema.Schema\<close>, with the fields the package assigns.  A nil pointer is
  \<open>None\<close>, a nil slice is the empty list, and the \<open>Properties\<close> map is a finite map
  (Go maps are unordered).
\<close>

datatype Schema =
  Schema (Type: string) (Items: "Schema option") (Description: string)
         (Properties: "(string, Schema) fmap") (Required: "string list")

record template =
  argIndex :: nat
  name :: string
  description :: string
  isArray :: bool
  isOptional :: bool

record Blueprint =
  BaseCommand :: string
  ToolName :: string
  ToolDescription :: string
  InputSchema :: Schema
  args :: "string list"
  templates :: "template list"

text \<open>
  A value of the parameter mapping \<open>map[string]interface{}\<close>: a string, a \<open>[]string\<close>,
  a \<open>[]interface{}\<close> (whose items are values again), or a value of any other dynamic
  type.
\<close>

datatype dyn_value = VString string | VStrings "string list" | VSlice "dyn_value list" | VOther

section \<open>FromArgs\<close>

text \<open>The local variables of \<open>FromArgs\<close> that its loop updates.\<close>

record parse_state =
  tmpls :: "template list"
  descriptionParts :: "string list"
  properties :: "(string, Schema) fmap"
  required :: "string list"

fun contains :: "string list \<Rightarrow> string \<Rightarrow> bool" where
  "contains [] item = False"
| "contains (s # slice) item = (if s = item then True else contains slice item)"

text \<open>
  The body of the loop for a word that \<open>optionalRegex\<close> matches (lines 63 to 90 of the
  source), \<open>i\<close> being the index of the word.
\<close>

definition optional_word :: "nat \<Rightarrow> string list \<Rightarrow> parse_state \<Rightarrow> parse_state option" where
  "optional_word i matches st = do {
     m1 \<leftarrow> go_index matches 1;
     m2 \<leftarrow> go_index matches 2;
     let varName = strings_ReplaceAll m1 ''-'' ''_'';
     let isArr = (m2 = ''...'');
     let tmpl = \<lparr>argIndex = i, name = varName, description = [], isArray = isArr,
                 isOptional = True\<rparr>;
     Some (if isArr then
             let tmpl = tmpl\<lparr>description := ''Additional command line arguments''\<rparr> in
             \<lparr>tmpls = tmpls st @ [tmpl],
              descriptionParts = descriptionParts st @ [''['' @ varName @ ''...]''],
              properties = fmupd varName
                 (Schema ''array'' (Some (Schema ''string'' None [] fmempty []))
                   (description tmpl) fmempty [])
                 (properties st),
              required = required st @ [varName]\<rparr>
           else
             \<lparr>tmpls = tmpls st @ [tmpl],
              descriptionParts = descriptionParts st @ [''['' @ varName @ '']''],
              properties = fmupd varName
                 (Schema ''string'' None [] fmempty [])
                 (properties st),
              required = required st\<rparr>)
   }"

text \<open>
  The body of the inner loop, for one match of \<open>templateRegex\<close> (lines 100 to 131).
  The branch \<open>else if exists && description != ""\<close> writes the description through
  the pointer \<open>existingProp\<close> stored in the map; a nil pointer there would panic.
\<close>

definition template_match :: "nat \<Rightarrow> string list \<Rightarrow> parse_state \<Rightarrow> parse_state option" where
  "template_match i match st = do {
     m1 \<leftarrow> go_index match 1;
     let varName = strings_ReplaceAll (strings_TrimSpace m1) ''-'' ''_'';
     d \<leftarrow> (if length match > 2
            then do { m2 \<leftarrow> go_index match 2;
                      Some (if m2 \<noteq> [] then strings_TrimSpace m2 else []) }
            else Some []);
     let existing = fmlookup (properties st) varName;
     let exists = (case existing of None \<Rightarrow> False | Some _ \<Rightarrow> True);
     props \<leftarrow>
       (if \<not> exists \<or> d \<noteq> [] then
          Some (fmupd varName
                  (Schema ''string'' None (if d \<noteq> [] then d else []) fmempty [])
                  (properties st))
        else if exists \<and> d \<noteq> [] then
          (case existing of
             None \<Rightarrow> None
           | Some existingProp \<Rightarrow>
               Some (fmupd varName
                       (Schema (Type existingProp) (Items existingProp) d
                          (Properties existingProp) (Required existingProp))
                       (properties st)))
        else Some (properties st));
     let req = (if \<not> contains (required st) varName then required st @ [varName]
                else required st);
     let tmpl = \<lparr>argIndex = i, name = varName, description = d, isArray = False,
                 isOptional = False\<rparr>;
     Some \<lparr>tmpls = tmpls st @ [tmpl], descriptionParts = descriptionParts st,
           properties = props, required = req\<rparr>
   }"

fun template_matches :: "nat \<Rightarrow> string list list \<Rightarrow> parse_state \<Rightarrow> parse_state option" where
  "template_matches i [] st = Some st"
| "template_matches i (match # ms) st =
     do { st' \<leftarrow> template_match i match st; template_matches i ms st' }"

text \<open>The loop over the words \<open>args[1:]\<close>; \<open>i\<close> is the index of the first word left.\<close>

fun FromArgs_loop :: "nat \<Rightarrow> string list \<Rightarrow> parse_state \<Rightarrow> parse_state option" where
  "FromArgs_loop i [] st = Some st"
| "FromArgs_loop i (arg # rest) st =
     (case optionalRegex_FindStringSubmatch arg of
        Some matches \<Rightarrow>
          do { st' \<leftarrow> optional_word i matches st; FromArgs_loop (i + 1) rest st' }
      | None \<Rightarrow>
          let matches = templateRegex_FindAllStringSubmatch arg in
          if length matches > 0 then
            do { st' \<leftarrow> template_matches i matches st;
                 let processedArg = templateRegex_ReplaceAllString arg;
                 FromArgs_loop (i + 1) rest
                   (st'\<lparr>descriptionParts := descriptionParts st' @ [processedArg]\<rparr>) }
          else
            FromArgs_loop (i + 1) rest (st\<lparr>descriptionParts := descriptionParts st @ [arg]\<rparr>))"

definition FromArgs :: "string list \<Rightarrow> Blueprint option" where
  "FromArgs as =
     (let bp = \<lparr>BaseCommand = [], ToolName = [], ToolDescription = [],
                InputSchema = Schema ''object'' None [] fmempty [],
                args = as, templates = []\<rparr>
      in case as of
           [] \<Rightarrow> Some bp
         | a0 # rest \<Rightarrow> do {
             st \<leftarrow> FromArgs_loop 1 rest
                    \<lparr>tmpls = [], descriptionParts = [a0], properties = fmempty, required = []\<rparr>;
             let schema = InputSchema bp;
             let schema = (if properties st \<noteq> fmempty
                           then Schema (Type schema) (Items schema) (Description schema)
                                  (properties st) (Required schema)
                           else schema);
             let schema = (if length (required st) > 0
                           then Schema (Type schema) (Items schema) (Description schema)
                                  (Properties schema) (required st)
                           else schema);
             Some (bp\<lparr>BaseCommand := a0,
                      ToolName := strings_ReplaceAll a0 ''-'' ''_'',
                      ToolDescription :=
                        ''Run the shell command `'' @ strings_Join (descriptionParts st) '' '' @ ''`'',
                      InputSchema := schema,
                      templates := tmpls st\<rparr>)
           })"

section \<open>BuildCommandArgs\<close>

text \<open>
  The inner loop over the matches of a word (lines 203 to 214): a match whose
  normalised name is bound to a string has the text of its whole match replaced in
  \<open>processedArg\<close>, everywhere it occurs there.
\<close>

fun replace_matches :: "(string \<Rightarrow> dyn_value option) \<Rightarrow> string list list \<Rightarrow> string \<Rightarrow> string option" where
  "replace_matches params [] processedArg = Some processedArg"
| "replace_matches params (match # ms) processedArg = do {
     m1 \<leftarrow> go_index match 1;
     let varName = strings_ReplaceAll (strings_TrimSpace m1) ''-'' ''_'';
     (case params varName of
        Some (VString str) \<Rightarrow> do {
          fullPattern \<leftarrow> go_index match 0;
          replace_matches params ms (strings_ReplaceAll processedArg fullPattern str) }
      | _ \<Rightarrow> replace_matches params ms processedArg)
   }"

text \<open>The strings among the items of a \<open>[]interface{}\<close> (lines 181 to 185).\<close>

fun string_items :: "dyn_value list \<Rightarrow> string list" where
  "string_items [] = []"
| "string_items (VString str # arr) = str # string_items arr"
| "string_items (_ # arr) = string_items arr"

text \<open>
  The loop over the words \<open>bp.args[1:]\<close>.  The map \<open>skipArgs\<close> is created empty and
  never written, so that the test \<open>skipArgs[i]\<close> is false for every index.
\<close>

fun BuildCommandArgs_loop ::
  "(string \<Rightarrow> dyn_value option) \<Rightarrow> (nat \<Rightarrow> bool) \<Rightarrow> nat \<Rightarrow> string list \<Rightarrow> string list \<Rightarrow> string list option"
where
  "BuildCommandArgs_loop params skipArgs i [] result = Some result"
| "BuildCommandArgs_loop params skipArgs i (arg # rest) result =
     (if skipArgs i then BuildCommandArgs_loop params skipArgs (i + 1) rest result
      else
        case optionalRegex_FindStringSubmatch arg of
          Some matches \<Rightarrow> do {
            m1 \<leftarrow> go_index matches 1;
            m2 \<leftarrow> go_index matches 2;
            let varName = strings_ReplaceAll m1 ''-'' ''_'';
            let isArr = (m2 = ''...'');
            let result =
              (if isArr then
                 (case params varName of
                    Some (VStrings arr) \<Rightarrow> if length arr > 0 then result @ arr else result
                  | Some (VSlice arr) \<Rightarrow>
                      if length arr > 0 then result @ string_items arr else result
                  | _ \<Rightarrow> result)
               else
                 (case params varName of
                    Some (VString str) \<Rightarrow> if str \<noteq> [] then result @ [str] else result
                  | _ \<Rightarrow> result));
            BuildCommandArgs_loop params skipArgs (i + 1) rest result }
        | None \<Rightarrow> do {
            let matches = templateRegex_FindAllStringSubmatch arg;
            processedArg \<leftarrow> (if length matches > 0 then replace_matches params matches arg
                             else Some arg);
            BuildCommandArgs_loop params skipArgs (i + 1) rest (result @ [processedArg]) })"

definition BuildCommandArgs :: "Blueprint \<Rightarrow> (string \<Rightarrow> dyn_value option) \<Rightarrow> string list option" where
  "BuildCommandArgs bp params =
     BuildCommandArgs_loop params (\<lambda>i. False) 1 (drop 1 (args bp)) [BaseCommand bp]"

section \<open>Basic facts about the model\<close>

lemma go_index_0 [simp]: "go_index (x # xs) 0 = Some x"
  by (simp add: go_index_def)

lemma go_index_1 [simp]: "go_index (x # y # xs) 1 = Some y"
  by (simp add: go_index_def)

lemma go_index_Suc_0 [simp]: "go_index (x # y # xs) (Suc 0) = Some y"
  by (simp add: go_index_def)

lemma go_index_2 [simp]: "go_index (x # y # z # xs) 2 = Some z"
  by (simp add: go_index_def)

lemma optionalRegex_cases:
  obtains (NoMatch) "optionalRegex_FindStringSubmatch w = None"
  | (Array) nm where "optionalRegex_FindStringSubmatch w = Some [w, nm, ''...'']" "nm \<noteq> []"
  | (Scalar) nm where "optionalRegex_FindStringSubmatch w = Some [w, nm, []]" "nm \<noteq> []"
proof (cases w)
  case Nil
  then have "optionalRegex_FindStringSubmatch w = None"
    by (simp add: optionalRegex_FindStringSubmatch_def)
  then show ?thesis by (rule NoMatch)
next
  case (Cons c rest)
  define nm where "nm = takeWhile (\<lambda>x. x \<noteq> CHR ''.'' \<and> x \<noteq> CHR '']'') rest"
  define after where "after = dropWhile (\<lambda>x. x \<noteq> CHR ''.'' \<and> x \<noteq> CHR '']'') rest"
  have eq: "optionalRegex_FindStringSubmatch w =
     (if c \<noteq> CHR ''['' then None
      else if nm = [] then None
      else if after = ''...]'' then Some [w, nm, ''...'']
      else if after = '']'' then Some [w, nm, []]
      else None)"
    unfolding optionalRegex_FindStringSubmatch_def Cons nm_def after_def Let_def list.case ..
  show ?thesis
  proof (cases "c \<noteq> CHR ''['' \<or> nm = []")
    case True
    then have "optionalRegex_FindStringSubmatch w = None" unfolding eq by presburger
    then show ?thesis by (rule NoMatch)
  next
    case no: False
    show ?thesis
    proof (cases "after = ''...]''")
      case True
      with no have "optionalRegex_FindStringSubmatch w = Some [w, nm, ''...'']"
        unfolding eq by presburger
      then show ?thesis using no by (intro Array [of nm]) simp_all
    next
      case na: False
      show ?thesis
      proof (cases "after = '']''")
        case True
        with no na have "optionalRegex_FindStringSubmatch w = Some [w, nm, []]"
          unfolding eq by presburger
        then show ?thesis using no by (intro Scalar [of nm]) simp_all
      next
        case False
        with no na have "optionalRegex_FindStringSubmatch w = None"
          unfolding eq by presburger
        then show ?thesis by (rule NoMatch)
      qed
    qed
  qed
qed

subsection \<open>The matches of the template expression\<close>

lemma templateRegex_FindAllStringSubmatch_Nil:
  "templateRegex_FindAllStringSubmatch [] = []"
  by (simp add: templateRegex_FindAllStringSubmatch_def templateRegex_allMatches_Nil)

lemma templateRegex_FindAllStringSubmatch_match:
  "templateRegex_match_prefix s = Some (m, rest) \<Longrightarrow>
     templateRegex_FindAllStringSubmatch s = m # templateRegex_FindAllStringSubmatch rest"
  by (simp add: templateRegex_FindAllStringSubmatch_def templateRegex_allMatches_match)

lemma templateRegex_FindAllStringSubmatch_skip:
  "templateRegex_match_prefix (c # cs) = None \<Longrightarrow>
     templateRegex_FindAllStringSubmatch (c # cs) = templateRegex_FindAllStringSubmatch cs"
  by (simp add: templateRegex_FindAllStringSubmatch_def templateRegex_allMatches_skip)

text \<open>Every match has the three entries whole match, name and description.\<close>

lemma templateRegex_allMatches_shape:
  "Match m \<in> set (templateRegex_allMatches s) \<Longrightarrow>
     \<exists>nm desc. m = [template_span nm desc, nm, desc] \<and> nm \<noteq> []"
proof (induction s rule: templateRegex_allMatches.induct)
  case (1 s)
  show ?case
  proof (cases s)
    case Nil
    with "1.prems" show ?thesis by (simp add: templateRegex_allMatches_Nil)
  next
    case (Cons c cs)
    then have ne: "s \<noteq> []" by simp
    show ?thesis
    proof (cases "templateRegex_match_prefix s")
      case None
      then have "templateRegex_allMatches s = Lit c # templateRegex_allMatches cs"
        unfolding Cons by (rule templateRegex_allMatches_skip)
      with "1.prems" have "Match m \<in> set (templateRegex_allMatches (tl s))"
        by (simp add: Cons)
      with "1.IH"(1) [OF ne None] show ?thesis .
    next
      case (Some p)
      obtain m' rest where p: "p = (m', rest)" by (cases p)
      from Some have mp: "templateRegex_match_prefix s = Some (m', rest)" by (simp add: p)
      then have "templateRegex_allMatches s = Match m' # templateRegex_allMatches rest"
        by (rule templateRegex_allMatches_match)
      with "1.prems" consider "m = m'" | "Match m \<in> set (templateRegex_allMatches rest)"
        by auto
      then show ?thesis
      proof cases
        case 1
        from templateRegex_match_prefix_shape [OF mp]
        obtain nm desc where "m' = [template_span nm desc, nm, desc]" "nm \<noteq> []"
          by (elim exE conjE)
        with 1 show ?thesis by (intro exI [of _ nm] exI [of _ desc]) simp
      next
        case 2
        with "1.IH"(2) [OF ne Some p [symmetric]] show ?thesis .
      qed
    qed
  qed
qed

lemma templateRegex_FindAllStringSubmatch_shape:
  assumes "m \<in> set (templateRegex_FindAllStringSubmatch s)"
  shows "\<exists>nm desc. m = [template_span nm desc, nm, desc] \<and> nm \<noteq> []"
proof -
  from assms have "Match m \<in> set (templateRegex_allMatches s)"
    by (auto simp: templateRegex_FindAllStringSubmatch_def split: piece.splits)
  then show ?thesis by (rule templateRegex_allMatches_shape)
qed

text \<open>
  The whole match is never the empty string, so that \<open>BuildCommandArgs\<close> never calls
  \<open>strings.ReplaceAll\<close> with an empty \<open>old\<close>.
\<close>

lemma templateRegex_full_match_not_empty:
  assumes "m \<in> set (templateRegex_FindAllStringSubmatch s)"
  shows "\<exists>full nm desc. m = [full, nm, desc] \<and> full \<noteq> []"
proof -
  from templateRegex_FindAllStringSubmatch_shape [OF assms]
  obtain nm desc where m: "m = [template_span nm desc, nm, desc]" by (elim exE conjE)
  have "template_span nm desc \<noteq> []" by (simp add: template_span_def)
  with m show ?thesis
    by (intro exI [of _ "template_span nm desc"] exI [of _ nm] exI [of _ desc] conjI)
qed

definition submatch3 :: "string list \<Rightarrow> bool" where
  "submatch3 m = (length m = 3)"

lemma templateRegex_FindAllStringSubmatch_submatch3:
  "m \<in> set (templateRegex_FindAllStringSubmatch s) \<Longrightarrow> submatch3 m"
  by (drule templateRegex_FindAllStringSubmatch_shape) (auto simp: submatch3_def)

lemma submatch3E:
  assumes "submatch3 m" obtains full nm desc where "m = [full, nm, desc]"
proof -
  from assms have "length m = 3" by (simp add: submatch3_def)
  then obtain a b c where "m = [a, b, c]"
    by (cases m; cases "tl m"; cases "tl (tl m)") auto
  then show ?thesis by (rule that)
qed

subsection \<open>Normalised names\<close>

text \<open>
  The name under which a field is known to the schema and to the parameter mapping: for
  the word \<open>[name]\<close> or \<open>[name...]\<close> the captured name with hyphens replaced, for the
  marker \<open>{{name}}\<close> the captured name trimmed and then with hyphens replaced.  The
  description of a marker is the captured description, trimmed.
\<close>

definition optional_name :: "string \<Rightarrow> string" where
  "optional_name raw = strings_ReplaceAll raw ''-'' ''_''"

definition required_name :: "string \<Rightarrow> string" where
  "required_name raw = strings_ReplaceAll (strings_TrimSpace raw) ''-'' ''_''"

definition marker_description :: "string \<Rightarrow> string" where
  "marker_description raw = (if raw \<noteq> [] then strings_TrimSpace raw else [])"

subsection \<open>One step of the loops of FromArgs\<close>

lemma optional_word_array:
  "optional_word i [w, nm, ''...''] st =
     Some \<lparr>tmpls = tmpls st @ [\<lparr>argIndex = i, name = optional_name nm,
                description = ''Additional command line arguments'', isArray = True,
                isOptional = True\<rparr>],
           descriptionParts = descriptionParts st @ [''['' @ optional_name nm @ ''...]''],
           properties = fmupd (optional_name nm)
              (Schema ''array'' (Some (Schema ''string'' None [] fmempty []))
                 ''Additional command line arguments'' fmempty [])
              (properties st),
           required = required st @ [optional_name nm]\<rparr>"
  by (simp add: optional_word_def optional_name_def Let_def)

lemma optional_word_scalar:
  "optional_word i [w, nm, []] st =
     Some \<lparr>tmpls = tmpls st @ [\<lparr>argIndex = i, name = optional_name nm,
                description = [], isArray = False, isOptional = True\<rparr>],
           descriptionParts = descriptionParts st @ [''['' @ optional_name nm @ '']''],
           properties = fmupd (optional_name nm) (Schema ''string'' None [] fmempty [])
              (properties st),
           required = required st\<rparr>"
  by (simp add: optional_word_def optional_name_def Let_def)

lemma contains_set: "contains slice item \<longleftrightarrow> item \<in> set slice"
  by (induction slice) auto

lemma template_match_eq:
  "template_match i [full, nm, desc] st =
     Some \<lparr>tmpls = tmpls st @ [\<lparr>argIndex = i, name = required_name nm,
                description = marker_description desc, isArray = False,
                isOptional = False\<rparr>],
           descriptionParts = descriptionParts st,
           properties =
             (if fmlookup (properties st) (required_name nm) = None
                   \<or> marker_description desc \<noteq> []
              then fmupd (required_name nm)
                     (Schema ''string'' None (marker_description desc) fmempty [])
                     (properties st)
              else properties st),
           required =
             (if required_name nm \<in> set (required st) then required st
              else required st @ [required_name nm])\<rparr>"
  by (cases "fmlookup (properties st) (required_name nm)")
     (simp_all add: template_match_def required_name_def [symmetric]
        marker_description_def [symmetric] contains_set Let_def)

subsection \<open>The placeholders of an argument vector, in scan order\<close>

text \<open>
  An occurrence of a field in the words \<open>args[1:]\<close>: an optional-array word
  \<open>[name...]\<close>, a plain optional word \<open>[name]\<close>, or a required-field marker
  \<open>{{name}}\<close> or \<open>{{name#description}}\<close> inside a word that is not an optional word.
  Names are normalised, descriptions trimmed.
\<close>

datatype occurrence =
  ArrayOcc string | OptionalOcc string | RequiredOcc string string

definition marker_occurrence :: "string list \<Rightarrow> occurrence list" where
  "marker_occurrence m =
     (case m of
        [full, nm, desc] \<Rightarrow> [RequiredOcc (required_name nm) (marker_description desc)]
      | _ \<Rightarrow> [])"

lemma marker_occurrence_3 [simp]:
  "marker_occurrence [full, nm, desc] =
     [RequiredOcc (required_name nm) (marker_description desc)]"
  by (simp add: marker_occurrence_def)

definition word_occurrences :: "string \<Rightarrow> occurrence list" where
  "word_occurrences w =
     (case optionalRegex_FindStringSubmatch w of
        Some ms \<Rightarrow>
          (case ms of
             [full, nm, dots] \<Rightarrow>
               [if dots = ''...'' then ArrayOcc (optional_name nm)
                else OptionalOcc (optional_name nm)]
           | _ \<Rightarrow> [])
      | None \<Rightarrow> concat (map marker_occurrence (templateRegex_FindAllStringSubmatch w)))"

definition occurrences :: "string list \<Rightarrow> occurrence list" where
  "occurrences as = concat (map word_occurrences (drop 1 as))"

text \<open>What one occurrence does to the required list and to the properties.\<close>

fun register_required :: "string list \<Rightarrow> occurrence \<Rightarrow> string list" where
  "register_required req (ArrayOcc n) = req @ [n]"
| "register_required req (OptionalOcc n) = req"
| "register_required req (RequiredOcc n d) = (if n \<in> set req then req else req @ [n])"

fun register_property :: "(string, Schema) fmap \<Rightarrow> occurrence \<Rightarrow> (string, Schema) fmap" where
  "register_property props (ArrayOcc n) =
     fmupd n (Schema ''array'' (Some (Schema ''string'' None [] fmempty []))
                ''Additional command line arguments'' fmempty []) props"
| "register_property props (OptionalOcc n) =
     fmupd n (Schema ''string'' None [] fmempty []) props"
| "register_property props (RequiredOcc n d) =
     (if fmlookup props n = None \<or> d \<noteq> []
      then fmupd n (Schema ''string'' None d fmempty []) props
      else props)"

text \<open>
  The display form of a word in the tool description: as \<open>FromArgs\<close> appends it to
  \<open>descriptionParts\<close>.
\<close>

definition display_form :: "string \<Rightarrow> string" where
  "display_form w =
     (case optionalRegex_FindStringSubmatch w of
        Some ms \<Rightarrow>
          (case ms of
             [full, nm, dots] \<Rightarrow>
               ''['' @ optional_name nm @ (if dots = ''...'' then ''...]'' else '']'')
           | _ \<Rightarrow> [])
      | None \<Rightarrow> templateRegex_ReplaceAllString w)"

lemma templateRegex_ReplaceAllString_no_match:
  assumes "templateRegex_FindAllStringSubmatch s = []"
  shows "templateRegex_ReplaceAllString s = s"
  using assms
proof (induction s rule: templateRegex_allMatches.induct)
  case (1 s)
  show ?case
  proof (cases s)
    case Nil
    then show ?thesis
      by (simp add: templateRegex_ReplaceAllString_def templateRegex_allMatches_Nil)
  next
    case (Cons c cs)
    then have ne: "s \<noteq> []" by simp
    show ?thesis
    proof (cases "templateRegex_match_prefix s")
      case None
      then have am: "templateRegex_allMatches s = Lit c # templateRegex_allMatches cs"
        unfolding Cons by (rule templateRegex_allMatches_skip)
      with "1.prems" have "templateRegex_FindAllStringSubmatch (tl s) = []"
        by (simp add: templateRegex_FindAllStringSubmatch_def Cons)
      with "1.IH"(1) [OF ne None] have "templateRegex_ReplaceAllString cs = cs"
        by (simp add: Cons)
      then show ?thesis
        by (simp add: templateRegex_ReplaceAllString_def am [unfolded Cons] Cons)
    next
      case (Some p)
      obtain m rest where p: "p = (m, rest)" by (cases p)
      from Some have "templateRegex_match_prefix s = Some (m, rest)" by (simp add: p)
      then have "templateRegex_FindAllStringSubmatch s \<noteq> []"
        by (simp add: templateRegex_FindAllStringSubmatch_match)
      with "1.prems" show ?thesis by simp
    qed
  qed
qed

lemma template_matches_fold:
  assumes "\<forall>m\<in>set ms. submatch3 m"
  shows "\<exists>st'. template_matches i ms st = Some st'
           \<and> required st' = foldl register_required (required st) (concat (map marker_occurrence ms))
           \<and> properties st' = foldl register_property (properties st) (concat (map marker_occurrence ms))
           \<and> descriptionParts st' = descriptionParts st"
  using assms
proof (induction ms arbitrary: st)
  case Nil
  then show ?case by simp
next
  case (Cons m ms)
  then have "submatch3 m" by simp
  then obtain full nm desc where m: "m = [full, nm, desc]" by (rule submatch3E)
  obtain st1 where st1: "template_match i m st = Some st1"
    and r1: "required st1 = register_required (required st) (RequiredOcc (required_name nm) (marker_description desc))"
    and p1: "properties st1 = register_property (properties st) (RequiredOcc (required_name nm) (marker_description desc))"
    and d1: "descriptionParts st1 = descriptionParts st"
    unfolding m by (simp add: template_match_eq)
  from Cons.prems have "\<forall>m\<in>set ms. submatch3 m" by simp
  from Cons.IH [OF this, of st1] obtain st' where
    "template_matches i ms st1 = Some st'"
    "required st' = foldl register_required (required st1) (concat (map marker_occurrence ms))"
    "properties st' = foldl register_property (properties st1) (concat (map marker_occurrence ms))"
    "descriptionParts st' = descriptionParts st1"
    by (elim exE conjE)
  then show ?case
    by (intro exI [of _ st']) (simp add: st1 [unfolded m] r1 p1 d1 m)
qed

subsection \<open>The loop of FromArgs as a fold over the occurrences\<close>

lemma word_occurrences_array:
  "optionalRegex_FindStringSubmatch w = Some [w, nm, ''...''] \<Longrightarrow>
     word_occurrences w = [ArrayOcc (optional_name nm)]"
  by (simp add: word_occurrences_def)

lemma word_occurrences_scalar:
  "optionalRegex_FindStringSubmatch w = Some [w, nm, []] \<Longrightarrow>
     word_occurrences w = [OptionalOcc (optional_name nm)]"
  by (simp add: word_occurrences_def)

lemma word_occurrences_markers:
  "optionalRegex_FindStringSubmatch w = None \<Longrightarrow>
     word_occurrences w = concat (map marker_occurrence (templateRegex_FindAllStringSubmatch w))"
  by (simp add: word_occurrences_def)

lemma display_form_array:
  "optionalRegex_FindStringSubmatch w = Some [w, nm, ''...''] \<Longrightarrow>
     display_form w = ''['' @ optional_name nm @ ''...]''"
  by (simp add: display_form_def)

lemma display_form_scalar:
  "optionalRegex_FindStringSubmatch w = Some [w, nm, []] \<Longrightarrow>
     display_form w = ''['' @ optional_name nm @ '']''"
  by (simp add: display_form_def)

lemma display_form_markers:
  "optionalRegex_FindStringSubmatch w = None \<Longrightarrow>
     display_form w = templateRegex_ReplaceAllString w"
  by (simp add: display_form_def)

lemma FromArgs_loop_fold:
  "\<exists>st'. FromArgs_loop i ws st = Some st'
      \<and> required st' = foldl register_required (required st) (concat (map word_occurrences ws))
      \<and> properties st' = foldl register_property (properties st) (concat (map word_occurrences ws))
      \<and> descriptionParts st' = descriptionParts st @ map display_form ws"
proof (induction ws arbitrary: i st)
  case Nil
  show ?case by simp
next
  case (Cons w ws)
  let ?R = "\<lambda>st1 st'. FromArgs_loop (i + 1) ws st1 = Some st'
      \<and> required st' = foldl register_required (required st1) (concat (map word_occurrences ws))
      \<and> properties st' = foldl register_property (properties st1) (concat (map word_occurrences ws))
      \<and> descriptionParts st' = descriptionParts st1 @ map display_form ws"
  show ?case
  proof (cases w rule: optionalRegex_cases)
    case NoMatch
    note occ = word_occurrences_markers [OF NoMatch]
    note dis = display_form_markers [OF NoMatch]
    show ?thesis
    proof (cases "templateRegex_FindAllStringSubmatch w = []")
      case True
      define st1 where "st1 = st\<lparr>descriptionParts := descriptionParts st @ [w]\<rparr>"
      from Cons.IH [of "i + 1" st1] obtain st' where st': "?R st1 st'" by (elim exE)
      have "FromArgs_loop i (w # ws) st = FromArgs_loop (i + 1) ws st1"
        by (simp add: NoMatch True st1_def)
      moreover have "display_form w = w"
        unfolding dis using True by (rule templateRegex_ReplaceAllString_no_match)
      ultimately show ?thesis using st'
        by (intro exI [of _ st']) (simp add: occ True st1_def)
    next
      case False
      have "\<forall>m\<in>set (templateRegex_FindAllStringSubmatch w). submatch3 m"
        by (blast intro: templateRegex_FindAllStringSubmatch_submatch3)
      from template_matches_fold [OF this, of i st]
      obtain st0 where st0: "template_matches i (templateRegex_FindAllStringSubmatch w) st = Some st0"
        and r0: "required st0 = foldl register_required (required st) (word_occurrences w)"
        and p0: "properties st0 = foldl register_property (properties st) (word_occurrences w)"
        and d0: "descriptionParts st0 = descriptionParts st"
        unfolding occ by (elim exE conjE)
      define st1 where
        "st1 = st0\<lparr>descriptionParts := descriptionParts st0 @ [templateRegex_ReplaceAllString w]\<rparr>"
      from Cons.IH [of "i + 1" st1] obtain st' where st': "?R st1 st'" by (elim exE)
      have "FromArgs_loop i (w # ws) st = FromArgs_loop (i + 1) ws st1"
        using False by (simp add: NoMatch st0 st1_def)
      then show ?thesis using st'
        by (intro exI [of _ st']) (simp add: st1_def r0 p0 d0 dis)
    qed
  next
    case (Array nm)
    obtain st1 where st1: "optional_word i [w, nm, ''...''] st = Some st1"
      and r1: "required st1 = register_required (required st) (ArrayOcc (optional_name nm))"
      and p1: "properties st1 = register_property (properties st) (ArrayOcc (optional_name nm))"
      and d1: "descriptionParts st1 = descriptionParts st @ [''['' @ optional_name nm @ ''...]'']"
      by (simp add: optional_word_array)
    from Cons.IH [of "i + 1" st1] obtain st' where st': "?R st1 st'" by (elim exE)
    have "FromArgs_loop i (w # ws) st = FromArgs_loop (i + 1) ws st1"
      by (simp add: Array(1) st1)
    then show ?thesis using st'
      by (intro exI [of _ st'])
         (simp add: r1 p1 d1 word_occurrences_array [OF Array(1)] display_form_array [OF Array(1)])
  next
    case (Scalar nm)
    obtain st1 where st1: "optional_word i [w, nm, []] st = Some st1"
      and r1: "required st1 = register_required (required st) (OptionalOcc (optional_name nm))"
      and p1: "properties st1 = register_property (properties st) (OptionalOcc (optional_name nm))"
      and d1: "descriptionParts st1 = descriptionParts st @ [''['' @ optional_name nm @ '']'']"
      by (simp add: optional_word_scalar)
    from Cons.IH [of "i + 1" st1] obtain st' where st': "?R st1 st'" by (elim exE)
    have "FromArgs_loop i (w # ws) st = FromArgs_loop (i + 1) ws st1"
      by (simp add: Scalar(1) st1)
    then show ?thesis using st'
      by (intro exI [of _ st'])
         (simp add: r1 p1 d1 word_occurrences_scalar [OF Scalar(1)] display_form_scalar [OF Scalar(1)])
  qed
qed

text \<open>The blueprint of a vector that has a base command.\<close>

lemma FromArgs_Cons:
  "\<exists>bp. FromArgs (a0 # ws) = Some bp
      \<and> BaseCommand bp = a0 \<and> ToolName bp = strings_ReplaceAll a0 ''-'' ''_''
      \<and> ToolDescription bp =
          ''Run the shell command `'' @ strings_Join (a0 # map display_form ws) '' '' @ ''`''
      \<and> Required (InputSchema bp) = foldl register_required [] (occurrences (a0 # ws))
      \<and> Properties (InputSchema bp) = foldl register_property fmempty (occurrences (a0 # ws))
      \<and> args bp = a0 # ws"
proof -
  define st0 where
    "st0 = \<lparr>tmpls = [], descriptionParts = [a0], properties = fmempty, required = []\<rparr>"
  from FromArgs_loop_fold [of "Suc 0" ws st0] obtain st where
    loop: "FromArgs_loop (Suc 0) ws st0 = Some st"
    and r: "required st = foldl register_required [] (occurrences (a0 # ws))"
    and p: "properties st = foldl register_property fmempty (occurrences (a0 # ws))"
    and d: "descriptionParts st = a0 # map display_form ws"
    unfolding occurrences_def st0_def by (elim exE conjE) simp
  show ?thesis
    unfolding FromArgs_def
    by (simp add: loop [unfolded st0_def] Let_def r [symmetric] p [symmetric] d)
qed

subsection \<open>The entries a word contributes to the rendered vector\<close>

text \<open>
  One pass of the inner loop of \<open>BuildCommandArgs\<close>, for a match with its three
  entries, and the entries one word appends to \<open>result\<close>.
\<close>

definition substitute :: "(string \<Rightarrow> dyn_value option) \<Rightarrow> string \<Rightarrow> string list \<Rightarrow> string" where
  "substitute params processedArg m =
     (case m of
        [full, nm, desc] \<Rightarrow>
          (case params (required_name nm) of
             Some (VString str) \<Rightarrow> strings_ReplaceAll processedArg full str
           | _ \<Rightarrow> processedArg)
      | _ \<Rightarrow> processedArg)"

definition rendered :: "(string \<Rightarrow> dyn_value option) \<Rightarrow> string \<Rightarrow> string list" where
  "rendered params w =
     (case optionalRegex_FindStringSubmatch w of
        Some ms \<Rightarrow>
          (case ms of
             [full, nm, dots] \<Rightarrow>
               if dots = ''...'' then
                 (case params (optional_name nm) of
                    Some (VStrings arr) \<Rightarrow> arr
                  | Some (VSlice arr) \<Rightarrow> string_items arr
                  | _ \<Rightarrow> [])
               else
                 (case params (optional_name nm) of
                    Some (VString str) \<Rightarrow> if str \<noteq> [] then [str] else []
                  | _ \<Rightarrow> [])
           | _ \<Rightarrow> [])
      | None \<Rightarrow> [foldl (substitute params) w (templateRegex_FindAllStringSubmatch w)])"

lemma substitute_3:
  "substitute params p [full, nm, desc] =
     (case params (required_name nm) of
        Some (VString str) \<Rightarrow> strings_ReplaceAll p full str
      | _ \<Rightarrow> p)"
  by (simp add: substitute_def)

lemma replace_matches_fold:
  assumes "\<forall>m\<in>set ms. submatch3 m"
  shows "replace_matches params ms p = Some (foldl (substitute params) p ms)"
  using assms
proof (induction ms arbitrary: p)
  case Nil
  show ?case by simp
next
  case (Cons m ms)
  then have "submatch3 m" by simp
  then obtain full nm desc where m: "m = [full, nm, desc]" by (rule submatch3E)
  from Cons.prems have rest: "\<forall>m\<in>set ms. submatch3 m" by simp
  show ?case
  proof (cases "params (required_name nm)")
    case None
    then show ?thesis
      by (simp add: m substitute_3 required_name_def [symmetric] Cons.IH [OF rest])
  next
    case (Some v)
    then show ?thesis
      by (cases v)
         (simp_all add: m substitute_3 required_name_def [symmetric] Cons.IH [OF rest])
  qed
qed

lemma string_items_filter: "string_items arr = [s. VString s \<leftarrow> arr]"
  by (induction arr rule: string_items.induct) simp_all

lemma BuildCommandArgs_loop_step:
  "BuildCommandArgs_loop params (\<lambda>i. False) i (w # ws) result =
     BuildCommandArgs_loop params (\<lambda>i. False) (i + 1) ws (result @ rendered params w)"
proof (cases w rule: optionalRegex_cases)
  case NoMatch
  have "\<forall>m\<in>set (templateRegex_FindAllStringSubmatch w). submatch3 m"
    by (blast intro: templateRegex_FindAllStringSubmatch_submatch3)
  note sub = replace_matches_fold [OF this, of params w]
  show ?thesis
  proof (cases "templateRegex_FindAllStringSubmatch w = []")
    case True
    then show ?thesis by (simp add: NoMatch rendered_def)
  next
    case False
    then show ?thesis by (simp add: NoMatch rendered_def sub)
  qed
next
  case (Array nm)
  show ?thesis
  proof (cases "params (optional_name nm)")
    case None
    then show ?thesis
      by (simp add: Array(1) rendered_def optional_name_def [symmetric])
  next
    case (Some v)
    then show ?thesis
      by (cases v) (simp_all add: Array(1) rendered_def optional_name_def [symmetric])
  qed
next
  case (Scalar nm)
  show ?thesis
  proof (cases "params (optional_name nm)")
    case None
    then show ?thesis
      by (simp add: Scalar(1) rendered_def optional_name_def [symmetric])
  next
    case (Some v)
    then show ?thesis
      by (cases v) (simp_all add: Scalar(1) rendered_def optional_name_def [symmetric])
  qed
qed

lemma BuildCommandArgs_loop_rendered:
  "BuildCommandArgs_loop params (\<lambda>i. False) i ws result =
     Some (result @ concat (map (rendered params) ws))"
proof (induction ws arbitrary: i result)
  case Nil
  show ?case by simp
next
  case (Cons w ws)
  show ?case
    unfolding BuildCommandArgs_loop_step Cons.IH by simp
qed

lemma BuildCommandArgs_rendered:
  "BuildCommandArgs bp params =
     Some (BaseCommand bp # concat (map (rendered params) (drop 1 (args bp))))"
  by (simp add: BuildCommandArgs_def BuildCommandArgs_loop_rendered)

subsection \<open>Parsing a vector and rendering its blueprint\<close>

definition render :: "string list \<Rightarrow> (string \<Rightarrow> dyn_value option) \<Rightarrow> string list option" where
  "render as params = do { bp \<leftarrow> FromArgs as; BuildCommandArgs bp params }"

lemma render_Nil: "render [] params = Some [[]]"
  by (simp add: render_def FromArgs_def BuildCommandArgs_def)

lemma render_Cons:
  "render (a0 # ws) params = Some (a0 # concat (map (rendered params) ws))"
proof -
  from FromArgs_Cons [of a0 ws] obtain bp where
    "FromArgs (a0 # ws) = Some bp" "BaseCommand bp = a0" "args bp = a0 # ws"
    by (elim exE conjE)
  then show ?thesis by (simp add: render_def BuildCommandArgs_rendered)
qed

text \<open>
  The entries of one word stand in the rendered vector at the word's position: after
  the rendering of the words before it and before the rendering of the words after it.
\<close>

lemma render_at_position:
  "\<exists>before after.
      render (a0 # pre) params = Some before
    \<and> render (a0 # post) params = Some (a0 # after)
    \<and> render (a0 # pre @ w # post) params = Some (before @ rendered params w @ after)"
  by (simp add: render_Cons)

subsection \<open>The words of the optional grammar\<close>

lemma optionalRegex_array_word:
  assumes "nm \<noteq> []" and "\<forall>c\<in>set nm. c \<noteq> CHR ''.'' \<and> c \<noteq> CHR '']''"
  shows "optionalRegex_FindStringSubmatch (''['' @ nm @ ''...]'')
           = Some [''['' @ nm @ ''...]'', nm, ''...'']"
proof -
  let ?P = "\<lambda>x. x \<noteq> CHR ''.'' \<and> x \<noteq> CHR '']''"
  from assms(2) have all: "\<And>x. x \<in> set nm \<Longrightarrow> ?P x" by simp
  have t: "takeWhile ?P (nm @ ''...]'') = nm"
    by (simp add: takeWhile_append2 [of nm ?P, OF all])
  have d: "dropWhile ?P (nm @ ''...]'') = ''...]''"
    by (simp add: dropWhile_append2 [of nm ?P, OF all])
  show ?thesis
    unfolding optionalRegex_FindStringSubmatch_def using assms(1)
    by (simp add: t d)
qed

lemma optionalRegex_scalar_word:
  assumes "nm \<noteq> []" and "\<forall>c\<in>set nm. c \<noteq> CHR ''.'' \<and> c \<noteq> CHR '']''"
  shows "optionalRegex_FindStringSubmatch (''['' @ nm @ '']'')
           = Some [''['' @ nm @ '']'', nm, []]"
proof -
  let ?P = "\<lambda>x. x \<noteq> CHR ''.'' \<and> x \<noteq> CHR '']''"
  from assms(2) have all: "\<And>x. x \<in> set nm \<Longrightarrow> ?P x" by simp
  have t: "takeWhile ?P (nm @ '']'') = nm"
    by (simp add: takeWhile_append2 [of nm ?P, OF all])
  have d: "dropWhile ?P (nm @ '']'') = '']''"
    by (simp add: dropWhile_append2 [of nm ?P, OF all])
  show ?thesis
    unfolding optionalRegex_FindStringSubmatch_def using assms(1)
    by (simp add: t d)
qed

lemma rendered_array:
  "optionalRegex_FindStringSubmatch w = Some [w, nm, ''...''] \<Longrightarrow>
     rendered params w =
       (case params (optional_name nm) of
          Some (VStrings arr) \<Rightarrow> arr
        | Some (VSlice arr) \<Rightarrow> string_items arr
        | _ \<Rightarrow> [])"
  by (simp add: rendered_def)

lemma rendered_scalar:
  "optionalRegex_FindStringSubmatch w = Some [w, nm, []] \<Longrightarrow>
     rendered params w =
       (case params (optional_name nm) of
          Some (VString str) \<Rightarrow> if str \<noteq> [] then [str] else []
        | _ \<Rightarrow> [])"
  by (simp add: rendered_def)


lemma rendered_literal:
  "optionalRegex_FindStringSubmatch w = None \<Longrightarrow>
   templateRegex_FindAllStringSubmatch w = [] \<Longrightarrow> rendered params w = [w]"
  by (simp add: rendered_def)

lemma concat_singletons: "(\<forall>w\<in>set ws. f w = [w]) \<Longrightarrow> concat (map f ws) = ws"
  by (induction ws) simp_all

section \<open>Rendering words without placeholders\<close>

text \<open>
  C2, as the specification states it: for every argument vector in which no word
  matches the optional grammar and no word contains a required-field marker, rendering
  with the empty parameter mapping returns the input vector.  It fails for the vector
  with no element, which renders to the one-element vector of the empty string.
\<close>

theorem identity_law_counterexample:
  "\<not> (\<forall>as. (\<forall>w\<in>set as. optionalRegex_FindStringSubmatch w = None
                     \<and> templateRegex_FindAllStringSubmatch w = [])
             \<longrightarrow> render as Map.empty = Some as)"
proof
  assume "\<forall>as. (\<forall>w\<in>set as. optionalRegex_FindStringSubmatch w = None
                     \<and> templateRegex_FindAllStringSubmatch w = [])
             \<longrightarrow> render as Map.empty = Some as"
  then have "render [] Map.empty = Some []" by simp
  then show False by (simp add: render_Nil)
qed

text \<open>
  C2, amended: for every argument vector with at least one element in which no word
  matches the optional grammar and no word contains a required-field marker, rendering
  with the empty parameter mapping returns the input vector.
\<close>

theorem identity_law:
  assumes "as \<noteq> []"
    and "\<forall>w\<in>set as. optionalRegex_FindStringSubmatch w = None
                     \<and> templateRegex_FindAllStringSubmatch w = []"
  shows "render as Map.empty = Some as"
proof -
  from assms(1) obtain a0 ws where as: "as = a0 # ws" by (cases as) auto
  from assms(2) have "\<forall>w\<in>set ws. rendered Map.empty w = [w]"
    by (simp add: as rendered_literal)
  then have "concat (map (rendered Map.empty) ws) = ws" by (rule concat_singletons)
  then show ?thesis by (simp add: as render_Cons)
qed

theorem identity_law_witness:
  "render [''say'', ''-v'', ''siri''] Map.empty = Some [''say'', ''-v'', ''siri'']"
proof -
  have "\<forall>w\<in>set [''say'', ''-v'', ''siri'']. optionalRegex_FindStringSubmatch w = None
                     \<and> templateRegex_FindAllStringSubmatch w = []"
    by code_simp
  from identity_law [OF _ this] show ?thesis by simp
qed

section \<open>Rendering optional words\<close>

text \<open>
  C6.  An optional-array word \<open>[name...]\<close> contributes, at its position in the rendered
  vector, the elements of the sequence bound to its normalised name, in order: all of
  a \<open>[]string\<close>, the strings among the items of a \<open>[]interface{}\<close>; it contributes no
  entry when the sequence is empty or the name is unbound.
\<close>

theorem optional_array_rendering:
  assumes "nm \<noteq> []" and "\<forall>c\<in>set nm. c \<noteq> CHR ''.'' \<and> c \<noteq> CHR '']''"
  shows "\<exists>before after entries.
      render (a0 # pre) params = Some before
    \<and> render (a0 # post) params = Some (a0 # after)
    \<and> render (a0 # pre @ (''['' @ nm @ ''...]'') # post) params = Some (before @ entries @ after)
    \<and> (\<forall>arr. params (optional_name nm) = Some (VStrings arr) \<longrightarrow> entries = arr)
    \<and> (\<forall>arr. params (optional_name nm) = Some (VSlice arr)
           \<longrightarrow> entries = [s. VString s \<leftarrow> arr])
    \<and> (params (optional_name nm) = None \<longrightarrow> entries = [])"
proof -
  let ?w = "''['' @ nm @ ''...]''"
  note m = optionalRegex_array_word [OF assms]
  from render_at_position [of a0 pre params post ?w] obtain before after where
    "render (a0 # pre) params = Some before"
    "render (a0 # post) params = Some (a0 # after)"
    "render (a0 # pre @ ?w # post) params = Some (before @ rendered params ?w @ after)"
    by (elim exE conjE)
  moreover have "\<forall>arr. params (optional_name nm) = Some (VStrings arr) \<longrightarrow> rendered params ?w = arr"
    unfolding rendered_array [OF m] by simp
  moreover have "\<forall>arr. params (optional_name nm) = Some (VSlice arr)
           \<longrightarrow> rendered params ?w = [s. VString s \<leftarrow> arr]"
    unfolding rendered_array [OF m] by (simp add: string_items_filter)
  moreover have "params (optional_name nm) = None \<longrightarrow> rendered params ?w = []"
    unfolding rendered_array [OF m] by simp
  ultimately show ?thesis
    by (intro exI [of _ before] exI [of _ after] exI [of _ "rendered params ?w"] conjI)
qed

theorem optional_array_rendering_witness:
  "render [''echo'', ''hello'', ''[args...]'', ''end'']
      [''args'' \<mapsto> VSlice [VString ''a'', VOther, VString ''b'']]
    = Some [''echo'', ''hello'', ''a'', ''b'', ''end'']
   \<and> render [''echo'', ''hello'', ''[args...]'', ''end''] Map.empty
    = Some [''echo'', ''hello'', ''end'']"
proof -
  have nm: "''args'' \<noteq> []" "\<forall>c\<in>set ''args''. c \<noteq> CHR ''.'' \<and> c \<noteq> CHR '']''"
    by simp_all
  have n: "optional_name ''args'' = ''args''" by code_simp
  have "optionalRegex_FindStringSubmatch ''hello'' = None"
    "templateRegex_FindAllStringSubmatch ''hello'' = []"
    "optionalRegex_FindStringSubmatch ''end'' = None"
    "templateRegex_FindAllStringSubmatch ''end'' = []"
    by code_simp+
  then have r1: "render [''echo'', ''hello''] ps = Some [''echo'', ''hello'']"
    and r2: "render [''echo'', ''end''] ps = Some [''echo'', ''end'']" for ps
    by (simp_all add: render_Cons rendered_literal)
  show ?thesis
    using optional_array_rendering [OF nm, of "''echo''" "[''hello'']"
        "[''args'' \<mapsto> VSlice [VString ''a'', VOther, VString ''b'']]" "[''end'']"]
      optional_array_rendering [OF nm, of "''echo''" "[''hello'']" Map.empty "[''end'']"]
    by (simp add: n r1 r2)
qed

text \<open>
  C7.  A plain optional word \<open>[name]\<close> contributes, at its position in the rendered
  vector, the string bound to its normalised name as one entry when that string is not
  empty; it contributes no entry when the name is unbound, bound to the empty string,
  or bound to a value that is not a string.
\<close>

theorem optional_rendering:
  assumes "nm \<noteq> []" and "\<forall>c\<in>set nm. c \<noteq> CHR ''.'' \<and> c \<noteq> CHR '']''"
  shows "\<exists>before after entries.
      render (a0 # pre) params = Some before
    \<and> render (a0 # post) params = Some (a0 # after)
    \<and> render (a0 # pre @ (''['' @ nm @ '']'') # post) params = Some (before @ entries @ after)
    \<and> (\<forall>str. params (optional_name nm) = Some (VString str) \<longrightarrow> str \<noteq> []
           \<longrightarrow> entries = [str])
    \<and> (params (optional_name nm) = None \<longrightarrow> entries = [])
    \<and> (params (optional_name nm) = Some (VString []) \<longrightarrow> entries = [])
    \<and> (\<forall>v. params (optional_name nm) = Some v \<longrightarrow> (\<forall>str. v \<noteq> VString str)
           \<longrightarrow> entries = [])"
proof -
  let ?w = "''['' @ nm @ '']''"
  note m = optionalRegex_scalar_word [OF assms]
  from render_at_position [of a0 pre params post ?w] obtain before after where
    "render (a0 # pre) params = Some before"
    "render (a0 # post) params = Some (a0 # after)"
    "render (a0 # pre @ ?w # post) params = Some (before @ rendered params ?w @ after)"
    by (elim exE conjE)
  moreover have "\<forall>str. params (optional_name nm) = Some (VString str) \<longrightarrow> str \<noteq> []
           \<longrightarrow> rendered params ?w = [str]"
    unfolding rendered_scalar [OF m] by simp
  moreover have "params (optional_name nm) = None \<longrightarrow> rendered params ?w = []"
    unfolding rendered_scalar [OF m] by simp
  moreover have "params (optional_name nm) = Some (VString []) \<longrightarrow> rendered params ?w = []"
    unfolding rendered_scalar [OF m] by simp
  moreover have "\<forall>v. params (optional_name nm) = Some v \<longrightarrow> (\<forall>str. v \<noteq> VString str)
           \<longrightarrow> rendered params ?w = []"
  proof (intro allI impI)
    fix v assume "params (optional_name nm) = Some v" "\<forall>str. v \<noteq> VString str"
    then show "rendered params ?w = []"
      unfolding rendered_scalar [OF m] by (cases v) simp_all
  qed
  ultimately show ?thesis
    by (intro exI [of _ before] exI [of _ after] exI [of _ "rendered params ?w"] conjI)
qed

theorem optional_rendering_witness:
  "render [''git'', ''log'', ''[my-branch]'', ''--oneline''] [''my_branch'' \<mapsto> VString ''main'']
     = Some [''git'', ''log'', ''main'', ''--oneline'']
   \<and> render [''git'', ''log'', ''[my-branch]'', ''--oneline''] [''my_branch'' \<mapsto> VString []]
     = Some [''git'', ''log'', ''--oneline'']
   \<and> render [''git'', ''log'', ''[my-branch]'', ''--oneline''] [''my_branch'' \<mapsto> VStrings [''main'']]
     = Some [''git'', ''log'', ''--oneline'']"
proof -
  have nm: "''my-branch'' \<noteq> []" "\<forall>c\<in>set ''my-branch''. c \<noteq> CHR ''.'' \<and> c \<noteq> CHR '']''"
    by simp_all
  have n: "optional_name ''my-branch'' = ''my_branch''" by code_simp
  have "optionalRegex_FindStringSubmatch ''log'' = None"
    "templateRegex_FindAllStringSubmatch ''log'' = []"
    "optionalRegex_FindStringSubmatch ''--oneline'' = None"
    "templateRegex_FindAllStringSubmatch ''--oneline'' = []"
    by code_simp+
  then have r1: "render [''git'', ''log''] ps = Some [''git'', ''log'']"
    and r2: "render [''git'', ''--oneline''] ps = Some [''git'', ''--oneline'']" for ps
    by (simp_all add: render_Cons rendered_literal)
  show ?thesis
    using optional_rendering [OF nm, of "''git''" "[''log'']"
        "[''my_branch'' \<mapsto> VString ''main'']" "[''--oneline'']"]
      optional_rendering [OF nm, of "''git''" "[''log'']"
        "[''my_branch'' \<mapsto> VString []]" "[''--oneline'']"]
      optional_rendering [OF nm, of "''git''" "[''log'']"
        "[''my_branch'' \<mapsto> VStrings [''main'']]" "[''--oneline'']"]
    by (simp add: n r1 r2)
qed

section \<open>The required list of the schema\<close>

lemma FromArgs_schema:
  "\<exists>bp. FromArgs as = Some bp
      \<and> Required (InputSchema bp) = foldl register_required [] (occurrences as)
      \<and> Properties (InputSchema bp) = foldl register_property fmempty (occurrences as)"
proof (cases as)
  case Nil
  then show ?thesis by (simp add: FromArgs_def occurrences_def)
next
  case (Cons a0 ws)
  from FromArgs_Cons [of a0 ws] show ?thesis unfolding Cons by blast
qed

lemma set_register_required:
  "set (foldl register_required req occs) =
     set req \<union> {n. ArrayOcc n \<in> set occs} \<union> {n. \<exists>d. RequiredOcc n d \<in> set occs}"
proof (induction occs arbitrary: req)
  case Nil
  show ?case by simp
next
  case (Cons occ occs)
  show ?case by (cases occ) (auto simp: Cons.IH)
qed

text \<open>
  C3.  In the schema that \<open>FromArgs\<close> produces, the name of every optional-array word
  \<open>[name...]\<close> and the name of every required-field marker \<open>{{name}}\<close> is in the
  required list, and a name that only plain optional words \<open>[name]\<close> introduce is not.
\<close>

theorem required_list_members:
  "\<exists>bp. FromArgs as = Some bp
      \<and> (\<forall>n. ArrayOcc n \<in> set (occurrences as) \<longrightarrow> n \<in> set (Required (InputSchema bp)))
      \<and> (\<forall>n d. RequiredOcc n d \<in> set (occurrences as)
             \<longrightarrow> n \<in> set (Required (InputSchema bp)))
      \<and> (\<forall>n. OptionalOcc n \<in> set (occurrences as)
             \<longrightarrow> ArrayOcc n \<notin> set (occurrences as)
             \<longrightarrow> (\<forall>d. RequiredOcc n d \<notin> set (occurrences as))
             \<longrightarrow> n \<notin> set (Required (InputSchema bp)))"
proof -
  from FromArgs_schema [of as] obtain bp where bp: "FromArgs as = Some bp"
    and r: "Required (InputSchema bp) = foldl register_required [] (occurrences as)"
    by (elim exE conjE)
  have "set (Required (InputSchema bp)) =
          {n. ArrayOcc n \<in> set (occurrences as)} \<union> {n. \<exists>d. RequiredOcc n d \<in> set (occurrences as)}"
    unfolding r set_register_required by simp
  with bp show ?thesis by (intro exI [of _ bp]) auto
qed

theorem required_list_members_witness:
  "\<exists>bp. FromArgs [''cmd'', ''[files...]'', ''[out]'', ''--name={{user-name#who}}''] = Some bp
      \<and> ''files'' \<in> set (Required (InputSchema bp))
      \<and> ''user_name'' \<in> set (Required (InputSchema bp))
      \<and> ''out'' \<notin> set (Required (InputSchema bp))"
proof -
  let ?as = "[''cmd'', ''[files...]'', ''[out]'', ''--name={{user-name#who}}'']"
  have occ: "occurrences ?as = [ArrayOcc ''files'', OptionalOcc ''out'', RequiredOcc ''user_name'' ''who'']"
    by code_simp
  from required_list_members [of ?as] show ?thesis unfolding occ by auto
qed

text \<open>
  C4.  The claim that the required list never holds a name twice does not hold of the
  code: the branch for an optional-array word appends the name without the test
  \<open>contains\<close> that the branch for a required-field marker makes.
\<close>

theorem required_list_duplicate:
  "\<exists>bp. FromArgs [''cmd'', ''[args...]'', ''[args...]''] = Some bp
      \<and> Required (InputSchema bp) = [''args'', ''args'']"
proof -
  have "map_option (\<lambda>bp. Required (InputSchema bp)) (FromArgs [''cmd'', ''[args...]'', ''[args...]''])
          = Some [''args'', ''args'']"
    by code_simp
  then show ?thesis by auto
qed

section \<open>The description of a required field\<close>

text \<open>
  The descriptions that the markers of one name supply, in scan order, and the last of
  them that is not empty (the empty string when there is none: the schema property
  then has no description).
\<close>

definition marker_descriptions :: "string \<Rightarrow> occurrence list \<Rightarrow> string list" where
  "marker_descriptions n occs =
     concat (map (\<lambda>occ. case occ of RequiredOcc n' d \<Rightarrow> if n' = n then [d] else []
                             | _ \<Rightarrow> []) occs)"

definition last_non_empty :: "string list \<Rightarrow> string" where
  "last_non_empty ds =
     (if filter (\<lambda>d. d \<noteq> []) ds = [] then [] else last (filter (\<lambda>d. d \<noteq> []) ds))"

lemma marker_descriptions_snoc:
  "marker_descriptions n (occs @ [occ]) =
     marker_descriptions n occs @
       (case occ of RequiredOcc n' d \<Rightarrow> if n' = n then [d] else [] | _ \<Rightarrow> [])"
  by (simp add: marker_descriptions_def)

lemma last_non_empty_snoc:
  "last_non_empty (ds @ [d]) = (if d \<noteq> [] then d else last_non_empty ds)"
  by (simp add: last_non_empty_def)

lemma last_non_empty_single: "last_non_empty [d] = d"
  by (simp add: last_non_empty_def)

lemma fmlookup_register_property:
  "fmlookup (register_property props occ) n =
     (case occ of
        ArrayOcc n' \<Rightarrow>
          if n' = n
          then Some (Schema ''array'' (Some (Schema ''string'' None [] fmempty []))
                       ''Additional command line arguments'' fmempty [])
          else fmlookup props n
      | OptionalOcc n' \<Rightarrow>
          if n' = n then Some (Schema ''string'' None [] fmempty []) else fmlookup props n
      | RequiredOcc n' d \<Rightarrow>
          if n' = n \<and> (fmlookup props n = None \<or> d \<noteq> [])
          then Some (Schema ''string'' None d fmempty [])
          else fmlookup props n)"
  by (cases occ) auto

lemma required_property:
  assumes "ArrayOcc n \<notin> set occs" and "OptionalOcc n \<notin> set occs"
  shows "fmlookup (foldl register_property fmempty occs) n =
           (if marker_descriptions n occs = [] then None
            else Some (Schema ''string'' None (last_non_empty (marker_descriptions n occs))
                         fmempty []))"
  using assms
proof (induction occs rule: rev_induct)
  case Nil
  show ?case by (simp add: marker_descriptions_def)
next
  case (snoc occ occs)
  then have IH: "fmlookup (foldl register_property fmempty occs) n =
           (if marker_descriptions n occs = [] then None
            else Some (Schema ''string'' None (last_non_empty (marker_descriptions n occs))
                         fmempty []))"
    by simp
  show ?case
  proof (cases occ)
    case (ArrayOcc n')
    with snoc.prems have "n' \<noteq> n" by auto
    then show ?thesis
      by (simp add: ArrayOcc fmlookup_register_property IH marker_descriptions_snoc)
  next
    case (OptionalOcc n')
    with snoc.prems have "n' \<noteq> n" by auto
    then show ?thesis
      by (simp add: OptionalOcc fmlookup_register_property IH marker_descriptions_snoc)
  next
    case (RequiredOcc n' d)
    show ?thesis
    proof (cases "n' = n")
      case False
      then show ?thesis
        by (simp add: RequiredOcc fmlookup_register_property IH marker_descriptions_snoc)
    next
      case True
      show ?thesis
      proof (cases "marker_descriptions n occs = []")
        case True
        with \<open>n' = n\<close> show ?thesis
          by (simp add: RequiredOcc fmlookup_register_property IH marker_descriptions_snoc
                last_non_empty_single)
      next
        case False
        with \<open>n' = n\<close> show ?thesis
          by (simp add: RequiredOcc fmlookup_register_property IH marker_descriptions_snoc
                last_non_empty_snoc)
      qed
    qed
  qed
qed

text \<open>
  C8, as the specification states it: for every name that required-field markers
  introduce, the description of its schema property is the last non-empty description
  among its markers.  It fails when an optional word of the same name follows, which
  writes the property anew.
\<close>

theorem marker_description_counterexample:
  "\<not> (\<forall>as n bp. FromArgs as = Some bp
          \<longrightarrow> marker_descriptions n (occurrences as) \<noteq> []
          \<longrightarrow> map_option Description (fmlookup (Properties (InputSchema bp)) n)
                = Some (last_non_empty (marker_descriptions n (occurrences as))))"
proof
  let ?as = "[''cmd'', ''{{a#first}}'', ''[a]'']"
  assume *: "\<forall>as n bp. FromArgs as = Some bp
          \<longrightarrow> marker_descriptions n (occurrences as) \<noteq> []
          \<longrightarrow> map_option Description (fmlookup (Properties (InputSchema bp)) n)
                = Some (last_non_empty (marker_descriptions n (occurrences as)))"
  have occ: "occurrences ?as = [RequiredOcc ''a'' ''first'', OptionalOcc ''a'']"
    by code_simp
  from FromArgs_schema [of ?as] obtain bp where bp: "FromArgs ?as = Some bp"
    and p: "Properties (InputSchema bp) = foldl register_property fmempty (occurrences ?as)"
    by (elim exE conjE)
  have d: "marker_descriptions ''a'' (occurrences ?as) = [''first'']"
    unfolding occ by (simp add: marker_descriptions_def)
  have "marker_descriptions ''a'' (occurrences ?as) \<noteq> []" unfolding d by simp
  from * [rule_format, OF bp this]
  have "map_option Description (fmlookup (Properties (InputSchema bp)) ''a'')
                = Some (last_non_empty [''first''])"
    unfolding d .
  then show False unfolding p occ by (simp add: last_non_empty_single)
qed

text \<open>
  C8, amended: for every name that no optional word and no optional-array word of the
  vector carries, the schema has a property for it exactly when a required-field marker
  introduces it, and the description of that property is the last non-empty description
  among its markers in scan order, or none when no marker supplies one.  So a marker with
  an empty description never clears a description recorded before, and a marker with
  a non-empty description always overwrites it.
\<close>

theorem marker_description_last_non_empty:
  assumes "ArrayOcc n \<notin> set (occurrences as)" and "OptionalOcc n \<notin> set (occurrences as)"
  shows "\<exists>bp. FromArgs as = Some bp
      \<and> fmlookup (Properties (InputSchema bp)) n =
          (if marker_descriptions n (occurrences as) = [] then None
           else Some (Schema ''string'' None
                        (last_non_empty (marker_descriptions n (occurrences as))) fmempty []))"
proof -
  from FromArgs_schema [of as] obtain bp where bp: "FromArgs as = Some bp"
    and p: "Properties (InputSchema bp) = foldl register_property fmempty (occurrences as)"
    by (elim exE conjE)
  show ?thesis
    unfolding p required_property [OF assms] using bp
    by (intro exI [of _ bp]) (simp add: p required_property [OF assms])
qed

theorem marker_description_last_non_empty_witness:
  "\<exists>bp. FromArgs [''curl'', ''{{url#The URL}}'', ''-o'', ''{{url}}.out'', ''{{ url # target }}.log'', ''{{url#}}'']
           = Some bp
      \<and> map_option Description (fmlookup (Properties (InputSchema bp)) ''url'') = Some ''target''"
proof -
  let ?as = "[''curl'', ''{{url#The URL}}'', ''-o'', ''{{url}}.out'', ''{{ url # target }}.log'', ''{{url#}}'']"
  have occ: "occurrences ?as
             = [RequiredOcc ''url'' ''The URL'', RequiredOcc ''url'' [], RequiredOcc ''url'' ''target'']"
    by code_simp
  have a: "ArrayOcc ''url'' \<notin> set (occurrences ?as)" "OptionalOcc ''url'' \<notin> set (occurrences ?as)"
    unfolding occ by simp_all
  have d: "marker_descriptions ''url'' (occurrences ?as) = [''The URL'', [], ''target'']"
    unfolding occ by (simp add: marker_descriptions_def)
  have l: "last_non_empty [''The URL'', [], ''target''] = ''target''"
    by (simp add: last_non_empty_def)
  from marker_description_last_non_empty [OF a] show ?thesis
    unfolding d l by auto
qed

section \<open>The display form of a word in the tool description\<close>

text \<open>
  The text of a piece of a scanned word in the word itself, and in the display form:
  a character between the markers stands for itself, a marker \<open>{{name}}\<close> or
  \<open>{{name#description}}\<close> is shown as \<open>{{name}}\<close> with the name as it was captured.
\<close>

fun piece_source :: "piece \<Rightarrow> string" where
  "piece_source (Lit c) = [c]"
| "piece_source (Match m) = (case m of [] \<Rightarrow> [] | full # _ \<Rightarrow> full)"

fun piece_display :: "piece \<Rightarrow> string" where
  "piece_display (Lit c) = [c]"
| "piece_display (Match m) = (case m of [full, nm, desc] \<Rightarrow> ''{{'' @ nm @ ''}}'' | _ \<Rightarrow> [])"

text \<open>
  The display form as the specification states it: the name inside the braces is
  the normalised one (trimmed, hyphens replaced by underscores).
\<close>

fun piece_normalised :: "piece \<Rightarrow> string" where
  "piece_normalised (Lit c) = [c]"
| "piece_normalised (Match m) =
     (case m of [full, nm, desc] \<Rightarrow> ''{{'' @ required_name nm @ ''}}'' | _ \<Rightarrow> [])"

definition normalised_display :: "string \<Rightarrow> string" where
  "normalised_display w =
     (case optionalRegex_FindStringSubmatch w of
        Some ms \<Rightarrow>
          (case ms of
             [full, nm, dots] \<Rightarrow>
               ''['' @ optional_name nm @ (if dots = ''...'' then ''...]'' else '']'')
           | _ \<Rightarrow> [])
      | None \<Rightarrow> concat (map piece_normalised (templateRegex_allMatches w)))"

lemma templateRegex_allMatches_source:
  "concat (map piece_source (templateRegex_allMatches s)) = s"
proof (induction s rule: templateRegex_allMatches.induct)
  case (1 s)
  show ?case
  proof (cases s)
    case Nil
    then show ?thesis by (simp add: templateRegex_allMatches_Nil)
  next
    case (Cons c cs)
    then have ne: "s \<noteq> []" by simp
    show ?thesis
    proof (cases "templateRegex_match_prefix s")
      case None
      then have am: "templateRegex_allMatches (c # cs) = Lit c # templateRegex_allMatches cs"
        unfolding Cons by (rule templateRegex_allMatches_skip)
      from "1.IH"(1) [OF ne None] show ?thesis by (simp add: Cons am)
    next
      case (Some p)
      obtain m rest where p: "p = (m, rest)" by (cases p)
      from Some have mp: "templateRegex_match_prefix s = Some (m, rest)" by (simp add: p)
      from templateRegex_match_prefix_shape [OF mp]
      obtain nm desc where m: "m = [template_span nm desc, nm, desc]"
        and s: "s = template_span nm desc @ rest"
        by (elim exE conjE)
      have "concat (map piece_source (templateRegex_allMatches s)) =
              template_span nm desc @ concat (map piece_source (templateRegex_allMatches rest))"
        unfolding templateRegex_allMatches_match [OF mp] by (simp add: m)
      also have "\<dots> = template_span nm desc @ rest"
        unfolding "1.IH"(2) [OF ne Some p [symmetric]] ..
      finally show ?thesis using s by simp
    qed
  qed
qed

lemma templateRegex_ReplaceAllString_display:
  "templateRegex_ReplaceAllString s = concat (map piece_display (templateRegex_allMatches s))"
proof -
  have "(case p of Lit c \<Rightarrow> [c] | Match m \<Rightarrow> expand_display m) = piece_display p"
    if "p \<in> set (templateRegex_allMatches s)" for p
  proof (cases p)
    case (Lit c)
    then show ?thesis by simp
  next
    case (Match m)
    with that have "Match m \<in> set (templateRegex_allMatches s)" by simp
    from templateRegex_allMatches_shape [OF this]
    obtain nm desc where "m = [template_span nm desc, nm, desc]" by (elim exE conjE)
    then show ?thesis by (simp add: Match expand_display_def)
  qed
  then have "map (\<lambda>p. case p of Lit c \<Rightarrow> [c] | Match m \<Rightarrow> expand_display m)
               (templateRegex_allMatches s)
             = map piece_display (templateRegex_allMatches s)"
    by (intro map_cong refl)
  then show ?thesis unfolding templateRegex_ReplaceAllString_def by (rule arg_cong)
qed

text \<open>
  C5, as the specification states it: in the tool description every marker of a word
  is shown as \<open>{{name}}\<close> with the normalised name.  It fails for a name with a hyphen,
  which the description shows as it was written.
\<close>

theorem display_form_counterexample:
  "\<not> (\<forall>a0 ws bp. FromArgs (a0 # ws) = Some bp
          \<longrightarrow> ToolDescription bp =
                ''Run the shell command `'' @ strings_Join (a0 # map normalised_display ws) '' ''
                  @ ''`'')"
proof
  assume *: "\<forall>a0 ws bp. FromArgs (a0 # ws) = Some bp
          \<longrightarrow> ToolDescription bp =
                ''Run the shell command `'' @ strings_Join (a0 # map normalised_display ws) '' ''
                  @ ''`''"
  have "map_option ToolDescription (FromArgs [''echo'', ''{{my-var}}''])
          = Some ''Run the shell command `echo {{my-var}}`''"
    by code_simp
  then obtain bp where bp: "FromArgs [''echo'', ''{{my-var}}''] = Some bp"
    and d: "ToolDescription bp = ''Run the shell command `echo {{my-var}}`''"
    by auto
  have n: "normalised_display ''{{my-var}}'' = ''{{my_var}}''" by code_simp
  from * [rule_format, OF bp] show False unfolding d by (simp add: n)
qed

text \<open>
  C5, amended: the tool description is \<open>Run the shell command\<close> followed, between
  backquotes, by the base command and the display forms of the words, joined by
  spaces.  The display form of an optional word is \<open>[name]\<close> or \<open>[name...]\<close> with the
  normalised name.  A word that is not an optional word is a sequence of characters and
  markers; its display form is the same sequence with every marker \<open>{{name}}\<close> or
  \<open>{{name#description}}\<close> shown as \<open>{{name}}\<close>, the name as it was captured (neither
  trimmed nor with hyphens replaced) and the description dropped; every other
  character is left as it is.
\<close>

theorem display_form_of_words:
  "\<exists>bp. FromArgs (a0 # ws) = Some bp
      \<and> ToolDescription bp =
            ''Run the shell command `'' @ strings_Join (a0 # map display_form ws) '' '' @ ''`''
      \<and> (\<forall>w\<in>set ws.
            (\<forall>nm. optionalRegex_FindStringSubmatch w = Some [w, nm, ''...'']
                \<longrightarrow> display_form w = ''['' @ optional_name nm @ ''...]'')
          \<and> (\<forall>nm. optionalRegex_FindStringSubmatch w = Some [w, nm, []]
                \<longrightarrow> display_form w = ''['' @ optional_name nm @ '']'')
          \<and> (optionalRegex_FindStringSubmatch w = None
                \<longrightarrow> w = concat (map piece_source (templateRegex_allMatches w))
                  \<and> display_form w = concat (map piece_display (templateRegex_allMatches w))
                  \<and> (\<forall>m. Match m \<in> set (templateRegex_allMatches w)
                        \<longrightarrow> (\<exists>nm desc. m = [template_span nm desc, nm, desc]))))"
proof -
  from FromArgs_Cons [of a0 ws] obtain bp where bp: "FromArgs (a0 # ws) = Some bp"
    and d: "ToolDescription bp =
            ''Run the shell command `'' @ strings_Join (a0 # map display_form ws) '' '' @ ''`''"
    by (elim exE conjE)
  have words: "(\<forall>nm. optionalRegex_FindStringSubmatch w = Some [w, nm, ''...'']
                \<longrightarrow> display_form w = ''['' @ optional_name nm @ ''...]'')
          \<and> (\<forall>nm. optionalRegex_FindStringSubmatch w = Some [w, nm, []]
                \<longrightarrow> display_form w = ''['' @ optional_name nm @ '']'')
          \<and> (optionalRegex_FindStringSubmatch w = None
                \<longrightarrow> w = concat (map piece_source (templateRegex_allMatches w))
                  \<and> display_form w = concat (map piece_display (templateRegex_allMatches w))
                  \<and> (\<forall>m. Match m \<in> set (templateRegex_allMatches w)
                        \<longrightarrow> (\<exists>nm desc. m = [template_span nm desc, nm, desc])))" for w
  proof (intro conjI allI impI)
    fix nm assume "optionalRegex_FindStringSubmatch w = Some [w, nm, ''...'']"
    then show "display_form w = ''['' @ optional_name nm @ ''...]''"
      by (rule display_form_array)
  next
    fix nm assume "optionalRegex_FindStringSubmatch w = Some [w, nm, []]"
    then show "display_form w = ''['' @ optional_name nm @ '']''"
      by (rule display_form_scalar)
  next
    show "w = concat (map piece_source (templateRegex_allMatches w))"
      by (rule templateRegex_allMatches_source [symmetric])
  next
    assume "optionalRegex_FindStringSubmatch w = None"
    then show "display_form w = concat (map piece_display (templateRegex_allMatches w))"
      by (simp add: display_form_markers templateRegex_ReplaceAllString_display)
  next
    fix m assume "Match m \<in> set (templateRegex_allMatches w)"
    from templateRegex_allMatches_shape [OF this]
    obtain nm desc where "m = [template_span nm desc, nm, desc]" by (elim exE conjE)
    then show "\<exists>nm desc. m = [template_span nm desc, nm, desc]"
      by (intro exI [of _ nm] exI [of _ desc])
  qed
  then have W: "\<forall>w\<in>set ws.
            (\<forall>nm. optionalRegex_FindStringSubmatch w = Some [w, nm, ''...'']
                \<longrightarrow> display_form w = ''['' @ optional_name nm @ ''...]'')
          \<and> (\<forall>nm. optionalRegex_FindStringSubmatch w = Some [w, nm, []]
                \<longrightarrow> display_form w = ''['' @ optional_name nm @ '']'')
          \<and> (optionalRegex_FindStringSubmatch w = None
                \<longrightarrow> w = concat (map piece_source (templateRegex_allMatches w))
                  \<and> display_form w = concat (map piece_display (templateRegex_allMatches w))
                  \<and> (\<forall>m. Match m \<in> set (templateRegex_allMatches w)
                        \<longrightarrow> (\<exists>nm desc. m = [template_span nm desc, nm, desc])))"
    by (intro ballI)
  show ?thesis
    by (rule exI [of _ bp], rule conjI [OF bp], rule conjI [OF d], rule W)
qed

theorem display_form_of_words_witness:
  "\<exists>bp. FromArgs [''curl'', ''[my-opts...]'', ''[out-file]'', ''--user={{ user-name # who }}:x''] = Some bp
      \<and> ToolDescription bp
          = ''Run the shell command `curl [my_opts...] [out_file] --user={{ user-name }}:x`''"
proof -
  let ?ws = "[''[my-opts...]'', ''[out-file]'', ''--user={{ user-name # who }}:x'']"
  have o1: "optionalRegex_FindStringSubmatch ''[my-opts...]'' = Some [''[my-opts...]'', ''my-opts'', ''...'']"
    and o2: "optionalRegex_FindStringSubmatch ''[out-file]'' = Some [''[out-file]'', ''out-file'', []]"
    and o3: "optionalRegex_FindStringSubmatch ''--user={{ user-name # who }}:x'' = None"
    and n1: "optional_name ''my-opts'' = ''my_opts''"
    and n2: "optional_name ''out-file'' = ''out_file''"
    and a3: "concat (map piece_display (templateRegex_allMatches ''--user={{ user-name # who }}:x''))
               = ''--user={{ user-name }}:x''"
    by code_simp+
  from display_form_of_words [of "''curl''" ?ws] obtain bp where
    bp: "FromArgs (''curl'' # ?ws) = Some bp"
    and d: "ToolDescription bp =
            ''Run the shell command `'' @ strings_Join (''curl'' # map display_form ?ws) '' '' @ ''`''"
    and w: "\<forall>w\<in>set ?ws.
            (\<forall>nm. optionalRegex_FindStringSubmatch w = Some [w, nm, ''...'']
                \<longrightarrow> display_form w = ''['' @ optional_name nm @ ''...]'')
          \<and> (\<forall>nm. optionalRegex_FindStringSubmatch w = Some [w, nm, []]
                \<longrightarrow> display_form w = ''['' @ optional_name nm @ '']'')
          \<and> (optionalRegex_FindStringSubmatch w = None
                \<longrightarrow> w = concat (map piece_source (templateRegex_allMatches w))
                  \<and> display_form w = concat (map piece_display (templateRegex_allMatches w))
                  \<and> (\<forall>m. Match m \<in> set (templateRegex_allMatches w)
                        \<longrightarrow> (\<exists>nm desc. m = [template_span nm desc, nm, desc])))"
    by (elim exE conjE)
  from w o1 have d1: "display_form ''[my-opts...]'' = ''[my_opts...]''"
    by (simp add: n1)
  from w o2 have d2: "display_form ''[out-file]'' = ''[out_file]''"
    by (simp add: n2)
  from w o3 have d3: "display_form ''--user={{ user-name # who }}:x'' = ''--user={{ user-name }}:x''"
    by (simp add: a3)
  from bp d show ?thesis by (intro exI [of _ bp]) (simp add: d1 d2 d3)
qed

section \<open>Substituting values for markers\<close>

text \<open>
  The word that the specification describes: every marker whose name is bound to a
  string is replaced by that string, every other character and marker is left as it
  is, and nothing that was inserted is looked at again.
\<close>

fun piece_value :: "(string \<Rightarrow> dyn_value option) \<Rightarrow> piece \<Rightarrow> string" where
  "piece_value params (Lit c) = [c]"
| "piece_value params (Match m) =
     (case m of
        [full, nm, desc] \<Rightarrow>
          (case params (required_name nm) of Some (VString str) \<Rightarrow> str | _ \<Rightarrow> full)
      | _ \<Rightarrow> [])"

definition opaque_substitution :: "(string \<Rightarrow> dyn_value option) \<Rightarrow> string \<Rightarrow> string" where
  "opaque_substitution params w = concat (map (piece_value params) (templateRegex_allMatches w))"

subsection \<open>Where a replacement can begin\<close>





subsection \<open>The text of a marker\<close>












subsection \<open>The pieces of a scanned word\<close>





subsection \<open>A word in the course of its rendering\<close>








subsection \<open>Markers that the scan would have found\<close>






subsection \<open>One replacement\<close>




subsection \<open>All replacements of a word\<close>














text \<open>
  None of the three conditions can be dropped: an empty value, a value that begins
  with a closing brace, and a marker whose description holds a marker each give a
  word that is not rendered as \<open>opaque_substitution\<close> describes.
\<close>

lemma opaque_substitution_conditions:
  "render [''echo'', ''{{b}{{a}}} {{b}}''] [''a'' \<mapsto> VString [], ''b'' \<mapsto> VString ''X'']
     = Some [''echo'', ''X X'']
   \<and> opaque_substitution [''a'' \<mapsto> VString [], ''b'' \<mapsto> VString ''X''] ''{{b}{{a}}} {{b}}''
     = ''{{b}} X''
   \<and> render [''echo'', ''{{b}{{a}} {{b}}''] [''a'' \<mapsto> VString ''}'', ''b'' \<mapsto> VString ''X'']
     = Some [''echo'', ''X X'']
   \<and> opaque_substitution [''a'' \<mapsto> VString ''}'', ''b'' \<mapsto> VString ''X''] ''{{b}{{a}} {{b}}''
     = ''{{b}} X''
   \<and> render [''gzip'', ''{{file}}>{{out#like {{file}}.gz}}''] [''file'' \<mapsto> VString ''a'']
     = Some [''gzip'', ''a>{{out#like a.gz}}'']
   \<and> opaque_substitution [''file'' \<mapsto> VString ''a''] ''{{file}}>{{out#like {{file}}.gz}}''
     = ''a>{{out#like {{file}}.gz}}''"
  by (intro conjI; code_simp)

section \<open>Totality\<close>










section \<open>The zero-element argument vector\<close>

text \<open>
  C10.  For the argument vector with no element, \<open>FromArgs\<close> returns a blueprint whose
  base command, tool name and tool description are the empty string (the description
  has no \<open>Run the shell command\<close> prefix), whose schema has an empty properties map
  and no required list, and \<open>BuildCommandArgs\<close> returns, for every parameter mapping,
  the vector whose one entry is the empty string.
\<close>

theorem FromArgs_empty_vector:
  "\<exists>bp. FromArgs [] = Some bp
      \<and> BaseCommand bp = [] \<and> ToolName bp = [] \<and> ToolDescription bp = []
      \<and> Properties (InputSchema bp) = fmempty \<and> Required (InputSchema bp) = []
      \<and> (\<forall>params. BuildCommandArgs bp params = Some [[]])"
  by (simp add: FromArgs_def BuildCommandArgs_def)

theorem FromArgs_empty_vector_witness:
  "\<exists>bp. FromArgs [] = Some bp \<and> ToolDescription bp = []
      \<and> BuildCommandArgs bp [''args'' \<mapsto> VStrings [''x'']] = Some [[]]"
  using FromArgs_empty_vector by blast

end
